theory Spec2Isabelle
  imports
    Main
    "HOL-Library.Sublist"
    "HOL-Library.AList"
    "HOL-Library.Char_ord"
    "HOL-Library.List_Lexorder"
    "HOL-Library.Multiset"
begin

section \<open>The Nanopolish SLURM wrapper\<close>

text \<open>
  A shallow embedding of \<^verbatim>\<open>nanopolish_slurm_wrapper.py\<close>. The script aligns the reads,
  submits one SLURM job per range of the assembly, polls the queue until none of its jobs
  is left, writes a sequence of Ns for every range whose job left no output, and hands the
  per-range files to the merge script.

  Bytes and text are both of type \<^typ>\<open>string\<close>: a text is kept as its UTF-8 encoding, so
  \<^verbatim>\<open>decode\<close> checks the bytes and leaves them as they are. The interpreter is a 64-bit
  CPython 3 with its default settings in a UTF-8 locale.
\<close>

subsection \<open>Python string operations\<close>

text \<open>
  \<^verbatim>\<open>s.split(sep)\<close> for a non-empty separator: the pieces between the non-overlapping
  occurrences of \<open>sep\<close>, found from the left. The result is never empty. (Python raises
  ValueError for an empty separator; the script only splits at literals.)
\<close>

function py_split :: "string \<Rightarrow> string \<Rightarrow> string list" where
  "py_split sep [] = [[]]"
| "py_split sep (c # cs) =
     (if sep \<noteq> [] \<and> prefix sep (c # cs)
      then [] # py_split sep (drop (length sep) (c # cs))
      else (case py_split sep cs of
              [] \<Rightarrow> [[c]]
            | p # ps \<Rightarrow> (c # p) # ps))"
  by pat_completeness auto
termination
  by (relation "measure (\<lambda>(sep, s). length s)") auto

text \<open>\<^verbatim>\<open>sub in s\<close> on strings is \<^const>\<open>sublist\<close>: \<open>s\<close> has \<open>sub\<close> as a contiguous part.\<close>

definition py_in :: "string \<Rightarrow> string \<Rightarrow> bool" where
  "py_in sub s = sublist sub s"

text \<open>\<^verbatim>\<open>sep.join(xs)\<close>.\<close>

fun py_join :: "string \<Rightarrow> string list \<Rightarrow> string" where
  "py_join sep [] = []"
| "py_join sep [x] = x"
| "py_join sep (x # y # ys) = x @ sep @ py_join sep (y # ys)"

text \<open>
  \<^verbatim>\<open>str(n)\<close> for an integer: decimal digits, most significant first, with a minus sign
  for a negative number.
\<close>

definition digit_char :: "nat \<Rightarrow> char" where
  "digit_char d = char_of (48 + d)"

function str_nat :: "nat \<Rightarrow> string" where
  "str_nat n = (if n < 10 then [digit_char n] else str_nat (n div 10) @ [digit_char (n mod 10)])"
  by pat_completeness auto
termination
  by (relation "measure id") auto

declare str_nat.simps [simp del]

definition str_int :: "int \<Rightarrow> string" where
  "str_int i = (if i < 0 then CHR ''-'' # str_nat (nat (- i)) else str_nat (nat i))"

text \<open>
  The strict UTF-8 decoder: the code points of a sequence of bytes, or \<open>None\<close> when the
  bytes are no UTF-8 (a stray or missing continuation byte, an overlong form, a surrogate,
  a value above \<open>0x10FFFF\<close>).
\<close>

definition continuation :: "int \<Rightarrow> bool" where
  "continuation b = (0x80 \<le> b \<and> b \<le> 0xBF)"

fun utf8_decode :: "int list \<Rightarrow> int list option" where
  "utf8_decode [] = Some []"
| "utf8_decode (a # bs) =
     (if a < 0x80 then map_option ((#) a) (utf8_decode bs)
      else if 0xC2 \<le> a \<and> a \<le> 0xDF then
        (case bs of
           b # r \<Rightarrow>
             if continuation b
             then map_option ((#) ((a - 0xC0) * 64 + (b - 0x80))) (utf8_decode r)
             else None
         | [] \<Rightarrow> None)
      else if 0xE0 \<le> a \<and> a \<le> 0xEF then
        (case bs of
           b # c # r \<Rightarrow>
             if (if a = 0xE0 then 0xA0 \<le> b \<and> b \<le> 0xBF
                 else if a = 0xED then 0x80 \<le> b \<and> b \<le> 0x9F
                 else continuation b)
                \<and> continuation c
             then map_option ((#) ((a - 0xE0) * 4096 + (b - 0x80) * 64 + (c - 0x80)))
                    (utf8_decode r)
             else None
         | _ \<Rightarrow> None)
      else if 0xF0 \<le> a \<and> a \<le> 0xF4 then
        (case bs of
           b # c # d # r \<Rightarrow>
             if (if a = 0xF0 then 0x90 \<le> b \<and> b \<le> 0xBF
                 else if a = 0xF4 then 0x80 \<le> b \<and> b \<le> 0x8F
                 else continuation b)
                \<and> continuation c \<and> continuation d
             then map_option
                    ((#) ((a - 0xF0) * 262144 + (b - 0x80) * 4096 + (c - 0x80) * 64 + (d - 0x80)))
                    (utf8_decode r)
             else None
         | _ \<Rightarrow> None)
      else None)"

definition code_points :: "string \<Rightarrow> int list option" where
  "code_points s = utf8_decode (map of_char s)"

definition utf8_valid :: "string \<Rightarrow> bool" where
  "utf8_valid s = (code_points s \<noteq> None)"

definition is_ascii :: "string \<Rightarrow> bool" where
  "is_ascii s = (\<forall>c \<in> set s. (of_char c :: int) < 128)"

text \<open>
  \<^verbatim>\<open>int(s)\<close> on text: white space around the literal is dropped, one sign may lead, and the
  digits may be grouped by single underscores. \<open>None\<close> stands for ValueError. A literal of
  more than 4300 digits is refused (the interpreter's default limit). In a text that is not
  ASCII the interpreter first replaces every white space character from 127 on by a space
  and every decimal digit of another script by its ASCII digit; any other character from
  127 on makes the text no integer. The table of decimal digits is that of Unicode 15.
\<close>

definition is_space :: "char \<Rightarrow> bool" where
  "is_space c = (c \<in> {CHR 0x09, CHR 0x0A, CHR 0x0B, CHR 0x0C, CHR 0x0D, CHR '' ''})"

definition is_digit :: "char \<Rightarrow> bool" where
  "is_digit c = (CHR ''0'' \<le> c \<and> c \<le> CHR ''9'')"

definition digit_val :: "char \<Rightarrow> int" where
  "digit_val c = of_char c - 48"

definition py_strip :: "string \<Rightarrow> string" where
  "py_strip s = rev (dropWhile is_space (rev (dropWhile is_space s)))"

fun digits_value :: "int \<Rightarrow> string \<Rightarrow> int option" where
  "digits_value acc [] = Some acc"
| "digits_value acc [c] = (if is_digit c then Some (10 * acc + digit_val c) else None)"
| "digits_value acc (c # d # cs) =
     (if is_digit c then digits_value (10 * acc + digit_val c) (d # cs)
      else if c = CHR ''_'' \<and> is_digit d then digits_value acc (d # cs)
      else None)"

definition max_str_digits :: int where
  "max_str_digits = 4300"

definition py_digits :: "string \<Rightarrow> int option" where
  "py_digits s =
     (case s of
        [] \<Rightarrow> None
      | c # cs \<Rightarrow>
          if is_digit c \<and> int (length (filter is_digit s)) \<le> max_str_digits
          then digits_value 0 s
          else None)"

definition ascii_int :: "string \<Rightarrow> int option" where
  "ascii_int s =
     (case py_strip s of
        [] \<Rightarrow> None
      | c # cs \<Rightarrow>
          if c = CHR ''-'' then map_option uminus (py_digits cs)
          else if c = CHR ''+'' then py_digits cs
          else py_digits (c # cs))"

definition unicode_space :: "int \<Rightarrow> bool" where
  "unicode_space cp =
     (cp \<in> {0x85, 0xA0, 0x1680, 0x2028, 0x2029, 0x202F, 0x205F, 0x3000}
      \<or> (0x2000 \<le> cp \<and> cp \<le> 0x200A))"

definition decimal_zeros :: "int list" where
  "decimal_zeros =
     [0x0660, 0x06F0, 0x07C0, 0x0966, 0x09E6, 0x0A66, 0x0AE6, 0x0B66, 0x0BE6, 0x0C66,
      0x0CE6, 0x0D66, 0x0DE6, 0x0E50, 0x0ED0, 0x0F20, 0x1040, 0x1090, 0x17E0, 0x1810,
      0x1946, 0x19D0, 0x1A80, 0x1A90, 0x1B50, 0x1BB0, 0x1C40, 0x1C50, 0xA620, 0xA8D0,
      0xA900, 0xA9D0, 0xA9F0, 0xAA50, 0xABF0, 0xFF10, 0x104A0, 0x10D30, 0x11066, 0x110F0,
      0x11136, 0x111D0, 0x112F0, 0x11450, 0x114D0, 0x11650, 0x116C0, 0x11730, 0x118E0,
      0x11950, 0x11C50, 0x11D50, 0x11DA0, 0x11F50, 0x16A60, 0x16AC0, 0x16B50, 0x1D7CE,
      0x1D7D8, 0x1D7E2, 0x1D7EC, 0x1D7F6, 0x1E140, 0x1E2F0, 0x1E4F0, 0x1E950, 0x1FBF0]"

definition unicode_decimal :: "int \<Rightarrow> int option" where
  "unicode_decimal cp =
     (case filter (\<lambda>z. z \<le> cp \<and> cp < z + 10) decimal_zeros of
        [] \<Rightarrow> None
      | z # zs \<Rightarrow> Some (cp - z))"

fun to_ascii :: "int list \<Rightarrow> string option" where
  "to_ascii [] = Some []"
| "to_ascii (cp # cps) =
     (if cp < 127 then map_option ((#) (char_of cp)) (to_ascii cps)
      else if unicode_space cp then map_option ((#) CHR '' '') (to_ascii cps)
      else case unicode_decimal cp of
             None \<Rightarrow> None
           | Some d \<Rightarrow> map_option ((#) (digit_char (nat d))) (to_ascii cps))"

definition py_int :: "string \<Rightarrow> int option" where
  "py_int s =
     (if is_ascii s then ascii_int s
      else case code_points s of
             None \<Rightarrow> None
           | Some cps \<Rightarrow>
               (case to_ascii cps of
                  None \<Rightarrow> None
                | Some t \<Rightarrow> ascii_int t))"

text \<open>
  \<^verbatim>\<open>splitlines()\<close>: the lines without their line ends; a text that ends with a line end
  has no empty last line. On bytes the line ends are \<open>\r\n\<close>, \<open>\n\<close> and \<open>\r\<close>; on text also
  \<open>\v\<close>, \<open>\f\<close>, \<open>\x1c\<close>, \<open>\x1d\<close>, \<open>\x1e\<close> and the characters U+0085, U+2028 and U+2029, which
  are \<open>C2 85\<close>, \<open>E2 80 A8\<close> and \<open>E2 80 A9\<close> in UTF-8. \<open>line_end\<close> is the number of bytes of the
  line end a text begins with, 0 if it begins with none.
\<close>

definition line_end :: "bool \<Rightarrow> string \<Rightarrow> nat" where
  "line_end text s =
     (case s of
        [] \<Rightarrow> 0
      | c # cs \<Rightarrow>
          if c = CHR 0x0D then (if take 1 cs = [CHR 0x0A] then 2 else 1)
          else if c = CHR 0x0A then 1
          else if text \<and> c \<in> {CHR 0x0B, CHR 0x0C, CHR 0x1C, CHR 0x1D, CHR 0x1E} then 1
          else if text \<and> c = CHR 0xC2 \<and> take 1 cs = [CHR 0x85] then 2
          else if text \<and> c = CHR 0xE2
                  \<and> (take 2 cs = [CHR 0x80, CHR 0xA8] \<or> take 2 cs = [CHR 0x80, CHR 0xA9]) then 3
          else 0)"

function split_lines :: "bool \<Rightarrow> string \<Rightarrow> string \<Rightarrow> string list" where
  "split_lines text acc [] = (if acc = [] then [] else [acc])"
| "split_lines text acc (c # cs) =
     (if line_end text (c # cs) = 0 then split_lines text (acc @ [c]) cs
      else acc # split_lines text [] (drop (line_end text (c # cs)) (c # cs)))"
  by pat_completeness auto
termination
  by (relation "measure (\<lambda>(text, acc, s). length s)") auto

definition bytes_splitlines :: "string \<Rightarrow> string list" where
  "bytes_splitlines s = split_lines False [] s"

definition str_splitlines :: "string \<Rightarrow> string list" where
  "str_splitlines s = split_lines True [] s"

text \<open>\<^verbatim>\<open>os.path.join(a, b)\<close> on POSIX.\<close>

definition path_join :: "string \<Rightarrow> string \<Rightarrow> string" where
  "path_join a b =
     (if b \<noteq> [] \<and> hd b = CHR ''/'' then b
      else if a = [] \<or> last a = CHR ''/'' then a @ b
      else a @ ''/'' @ b)"

subsection \<open>The world outside the script\<close>

text \<open>
  The script acts on a file system, runs shell commands and sleeps. \<open>paths\<close> is the file
  tree outside the workspace, by absolute path. \<open>files\<close> holds the entries of the run's
  workspace directory, in the order the file system enumerates them; every relative path
  of the script is used while the workspace is the current directory. The workspace is
  created empty and no tool called here makes a subdirectory in it, so it is flat: a
  relative path with a slash names nothing. \<open>os_refuses\<close> is the verdict of the operating
  system on a call for the reasons not modelled (permissions, quotas, name length, the
  memory there is); what is written to a file that was opened reaches the file.
  \<open>trace\<close> records, oldest first, what the process did to the outside; \<open>stdout\<close> is what it
  printed.
\<close>

datatype entry = File string | Dir

datatype error =
    IndexError
  | ValueError
  | FileExistsError
  | FileNotFoundError
  | NotADirectoryError
  | IsADirectoryError
  | OSError
  | UnicodeDecodeError
  | OverflowError
  | MemoryError
  | CalledProcessError string int

datatype oscall =
    MkDir string
  | ChDir string
  | OpenWrite string
  | RmTree string
  | Alloc int

datatype event =
    Mkdir string
  | Chdir string
  | Run string int
  | Sleep nat
  | Write string
  | Rmtree string

record world =
  paths :: "string \<rightharpoonup> entry"
  files :: "(string \<times> entry) list"
  os_refuses :: "oscall \<Rightarrow> error option"
  trace :: "event list"
  stdout :: "string list"

text \<open>
  What a shell command did: its exit status, what it wrote to its standard output, and the
  workspace it left.
\<close>

record cmd_result =
  returncode :: int
  captured :: string
  files_after :: "(string \<times> entry) list"

text \<open>
  The surroundings of one run. \<open>shell\<close> runs a command line in the world as it is (its
  history included) and \<open>asleep\<close> gives the workspace as the queued jobs leave it while the
  process sleeps. \<open>clock\<close> is \<^verbatim>\<open>time.time()\<close> read in whole seconds.
\<close>

record env =
  argv :: "string list"
  getpid :: nat
  abspath :: "string \<Rightarrow> string"
  shell :: "string \<Rightarrow> world \<Rightarrow> cmd_result"
  asleep :: "nat \<Rightarrow> world \<Rightarrow> (string \<times> entry) list"
  clock :: "world \<Rightarrow> int"

definition newline :: string where
  "newline = [CHR 0x0A]"

definition dquote :: string where
  "dquote = [CHR 0x22]"

text \<open>\<^verbatim>\<open>print(s)\<close> and \<^verbatim>\<open>print(s, end='')\<close>.\<close>

definition print :: "string \<Rightarrow> world \<Rightarrow> world" where
  "print s w = w\<lparr>stdout := stdout w @ [s @ newline]\<rparr>"

definition print_noend :: "string \<Rightarrow> world \<Rightarrow> world" where
  "print_noend s w = w\<lparr>stdout := stdout w @ [s]\<rparr>"

text \<open>The exit status of the interpreter: 1 after an uncaught exception, 0 at the end of the script.\<close>

definition exit_status :: "error + unit \<Rightarrow> nat" where
  "exit_status r = (case r of Inl err \<Rightarrow> 1 | Inr u \<Rightarrow> 0)"

text \<open>A stage that raised ends the run; otherwise the next stage goes on from its result.\<close>

definition and_then ::
  "(error + 'a) \<times> world \<Rightarrow> ('a \<Rightarrow> world \<Rightarrow> (error + 'b) \<times> world) \<Rightarrow> (error + 'b) \<times> world" where
  "and_then m f = (case m of (Inl err, w) \<Rightarrow> (Inl err, w) | (Inr a, w) \<Rightarrow> f a w)"

text \<open>\<^verbatim>\<open>os.path.dirname\<close> on POSIX.\<close>

definition os_path_dirname :: "string \<Rightarrow> string" where
  "os_path_dirname p =
     (let head = rev (dropWhile (\<lambda>c. c \<noteq> CHR ''/'') (rev p))
      in if head \<noteq> [] \<and> \<not> (\<forall>c \<in> set head. c = CHR ''/'')
         then rev (dropWhile (\<lambda>c. c = CHR ''/'') (rev head))
         else head)"

text \<open>
  \<^verbatim>\<open>os.mkdir(p)\<close> makes one directory: it fails when \<open>p\<close> exists and when the parent of \<open>p\<close>
  is not a directory. The new directory is empty.
\<close>

definition os_mkdir :: "string \<Rightarrow> world \<Rightarrow> (error + unit) \<times> world" where
  "os_mkdir p w =
     (if paths w p \<noteq> None then (Inl FileExistsError, w)
      else case paths w (os_path_dirname p) of
             None \<Rightarrow> (Inl FileNotFoundError, w)
           | Some (File c) \<Rightarrow> (Inl NotADirectoryError, w)
           | Some Dir \<Rightarrow>
               (case os_refuses w (MkDir p) of
                  Some err \<Rightarrow> (Inl err, w)
                | None \<Rightarrow>
                    (Inr (), w\<lparr>paths := (paths w)(p \<mapsto> Dir), files := [],
                                trace := trace w @ [Mkdir p]\<rparr>)))"

definition os_chdir :: "string \<Rightarrow> world \<Rightarrow> (error + unit) \<times> world" where
  "os_chdir p w =
     (case os_refuses w (ChDir p) of
        Some err \<Rightarrow> (Inl err, w)
      | None \<Rightarrow> (Inr (), w\<lparr>trace := trace w @ [Chdir p]\<rparr>))"

text \<open>\<^verbatim>\<open>shutil.rmtree(p)\<close> removes the directory and all it holds.\<close>

definition shutil_rmtree :: "string \<Rightarrow> world \<Rightarrow> (error + unit) \<times> world" where
  "shutil_rmtree p w =
     (case os_refuses w (RmTree p) of
        Some err \<Rightarrow> (Inl err, w)
      | None \<Rightarrow>
          (Inr (), w\<lparr>paths := (paths w)(p := None), files := [],
                      trace := trace w @ [Rmtree p]\<rparr>))"

text \<open>\<^verbatim>\<open>bytes.decode()\<close>, with the default encoding UTF-8 and strict errors.\<close>

definition decode :: "string \<Rightarrow> error + string" where
  "decode s = (if utf8_valid s then Inr s else Inl UnicodeDecodeError)"

fun decode_all :: "string list \<Rightarrow> error + string list" where
  "decode_all [] = Inr []"
| "decode_all (x # xs) =
     (case decode x of
        Inl err \<Rightarrow> Inl err
      | Inr t \<Rightarrow> (case decode_all xs of Inl err \<Rightarrow> Inl err | Inr ts \<Rightarrow> Inr (t # ts)))"

text \<open>
  \<^verbatim>\<open>os.path.isfile(p)\<close> for a relative path, in the workspace. A path with a NUL character
  is no file.
\<close>

definition isfile :: "world \<Rightarrow> string \<Rightarrow> bool" where
  "isfile w p =
     (CHR 0x00 \<notin> set p \<and> CHR ''/'' \<notin> set p \<and>
      (case map_of (files w) p of Some (File c) \<Rightarrow> True | Some Dir \<Rightarrow> False | None \<Rightarrow> False))"

text \<open>
  \<^verbatim>\<open>open(p, 'wt')\<close> for a relative path: the file is created, or emptied if it is there. A
  path with a NUL character raises ValueError.
\<close>

definition open_wt :: "string \<Rightarrow> world \<Rightarrow> (error + unit) \<times> world" where
  "open_wt p w =
     (if CHR 0x00 \<in> set p then (Inl ValueError, w)
      else if CHR ''/'' \<in> set p then (Inl FileNotFoundError, w)
      else case map_of (files w) p of
             Some Dir \<Rightarrow> (Inl IsADirectoryError, w)
           | _ \<Rightarrow>
               (case os_refuses w (OpenWrite p) of
                  Some err \<Rightarrow> (Inl err, w)
                | None \<Rightarrow>
                    (Inr (), w\<lparr>files := AList.update p (File []) (files w),
                                trace := trace w @ [Write p]\<rparr>)))"

text \<open>\<^verbatim>\<open>f.write(text)\<close> on the open file \<open>p\<close>: the text is added at the end of the file.\<close>

definition file_text :: "world \<Rightarrow> string \<Rightarrow> string" where
  "file_text w p = (case map_of (files w) p of Some (File c) \<Rightarrow> c | Some Dir \<Rightarrow> [] | None \<Rightarrow> [])"

definition file_write :: "string \<Rightarrow> string \<Rightarrow> world \<Rightarrow> world" where
  "file_write p text w = w\<lparr>files := AList.update p (File (file_text w p @ text)) (files w)\<rparr>"

text \<open>
  \<^verbatim>\<open>s * n\<close>: \<open>n\<close> copies of \<open>s\<close>, none for \<open>n\<close> below 1. A count that is no index (outside
  \<open>-sys.maxsize - 1\<close> to \<open>sys.maxsize\<close>) or a result longer than \<open>sys.maxsize\<close> raises
  OverflowError; a result for which there is no memory raises MemoryError.
\<close>

definition sys_maxsize :: int where
  "sys_maxsize = 9223372036854775807"

definition py_repeat :: "string \<Rightarrow> int \<Rightarrow> world \<Rightarrow> error + string" where
  "py_repeat s n w =
     (if n > sys_maxsize \<or> n < - sys_maxsize - 1 then Inl OverflowError
      else if int (length s) * n > sys_maxsize then Inl OverflowError
      else case os_refuses w (Alloc (int (length s) * n)) of
             Some err \<Rightarrow> Inl err
           | None \<Rightarrow> Inr (concat (replicate (nat n) s)))"

text \<open>\<^verbatim>\<open>time.sleep(n)\<close>.\<close>

definition time_sleep :: "env \<Rightarrow> nat \<Rightarrow> world \<Rightarrow> world" where
  "time_sleep e n w = w\<lparr>files := asleep e n w, trace := trace w @ [Sleep n]\<rparr>"

text \<open>
  \<^verbatim>\<open>subprocess.run(cmd, shell=True, check=True)\<close> and \<^verbatim>\<open>subprocess.check_output(cmd,
  shell=True)\<close>: a command line with a NUL character raises ValueError and nothing is
  run; otherwise the command runs to its end, and a status other than 0 raises
  CalledProcessError. The result is the captured output, as bytes.
\<close>

definition subprocess_run :: "env \<Rightarrow> string \<Rightarrow> world \<Rightarrow> (error + string) \<times> world" where
  "subprocess_run e cmd w =
     (if CHR 0x00 \<in> set cmd then (Inl ValueError, w)
      else
        (let res = shell e cmd w;
             w' = w\<lparr>files := files_after res, trace := trace w @ [Run cmd (returncode res)]\<rparr>
         in if returncode res = 0 then (Inr (captured res), w')
            else (Inl (CalledProcessError cmd (returncode res)), w')))"

subsection \<open>The script\<close>

text \<open>The local variables of \<^verbatim>\<open>main\<close> that are set before the workspace is made (lines 16 to 31).\<close>

record locals =
  assembly_filename :: string
  read_filename :: string
  raw_fast5_dir :: string
  output_dir :: string
  nanopolish_dir :: string
  threads :: int
  nanopolish_exec :: string
  nanopolish_makerange :: string
  nanopolish_merge :: string
  set_name :: string
  pid :: string
  temp_dir :: string

text \<open>
  Reading \<^verbatim>\<open>sys.argv\<close>: a missing argument raises IndexError and a thread count that is no
  integer raises ValueError.
\<close>

definition read_args :: "env \<Rightarrow> error + locals" where
  "read_args e =
     (if length (argv e) < 7 then Inl IndexError
      else case py_int (argv e ! 6) of
             None \<Rightarrow> Inl ValueError
           | Some t \<Rightarrow>
               (let assembly = abspath e (argv e ! 1);
                    outdir = abspath e (argv e ! 4);
                    npdir = abspath e (argv e ! 5);
                    p = str_nat (getpid e)
                in Inr \<lparr>assembly_filename = assembly,
                        read_filename = abspath e (argv e ! 2),
                        raw_fast5_dir = abspath e (argv e ! 3),
                        output_dir = outdir,
                        nanopolish_dir = npdir,
                        threads = t,
                        nanopolish_exec = path_join npdir ''nanopolish'',
                        nanopolish_makerange =
                          path_join (path_join npdir ''scripts'') ''nanopolish_makerange.py'',
                        nanopolish_merge =
                          path_join (path_join npdir ''scripts'') ''nanopolish_merge.py'',
                        set_name = hd (py_split ''.fasta'' (last (py_split ''/'' assembly))),
                        pid = p,
                        temp_dir = path_join outdir (p @ ''_temp_dir'')\<rparr>))"

definition makerange_command :: "string \<Rightarrow> string \<Rightarrow> string" where
  "makerange_command makerange assembly = ''python '' @ makerange @ '' '' @ assembly"

text \<open>The lines of the tool's output, each decoded (lines 100 to 102).\<close>

definition get_nanopolish_ranges ::
  "env \<Rightarrow> string \<Rightarrow> string \<Rightarrow> world \<Rightarrow> (error + string list) \<times> world" where
  "get_nanopolish_ranges e makerange assembly w =
     and_then (subprocess_run e (makerange_command makerange assembly) w)
       (\<lambda>range_out w'. (decode_all (bytes_splitlines range_out), w'))"

definition squeue_command :: string where
  "squeue_command = ''squeue -o '' @ dquote @ ''%.70j %.8i %.10T'' @ dquote"

definition get_remaining_nanopolish_jobs ::
  "env \<Rightarrow> string \<Rightarrow> world \<Rightarrow> (error + nat) \<times> world" where
  "get_remaining_nanopolish_jobs e job_prefix w =
     and_then (subprocess_run e squeue_command w)
       (\<lambda>out w'.
          case decode out of
            Inl err \<Rightarrow> (Inl err, w')
          | Inr current_jobs \<Rightarrow>
              (Inr (length (filter (py_in job_prefix) (str_splitlines current_jobs))), w'))"

definition alignment_command :: "locals \<Rightarrow> string" where
  "alignment_command l =
     ''minimap2 -x map10k -a -t '' @ str_int (threads l) @ '' '' @ assembly_filename l @ '' ''
       @ read_filename l @ '' | samtools sort -o reads.sorted.bam -T reads.tmp -''"

definition index_command :: "locals \<Rightarrow> string" where
  "index_command l =
     nanopolish_exec l @ '' index -d '' @ raw_fast5_dir l @ '' '' @ read_filename l"

definition make_job_prefix :: "string \<Rightarrow> string" where
  "make_job_prefix p = ''Nanopolish_'' @ p @ ''_''"

definition make_job_name :: "string \<Rightarrow> string \<Rightarrow> string" where
  "make_job_name job_prefix polish_range = job_prefix @ polish_range"

definition variants_command :: "locals \<Rightarrow> string \<Rightarrow> string" where
  "variants_command l polish_range =
     nanopolish_exec l @ '' variants --consensus polished.'' @ polish_range @ ''.fa -w ''
       @ polish_range @ '' -r '' @ read_filename l @ '' -b reads.sorted.bam -g ''
       @ assembly_filename l @ '' -t 2 --min-candidate-frequency 0.1''"

definition sbatch_command :: "locals \<Rightarrow> string \<Rightarrow> string \<Rightarrow> string" where
  "sbatch_command l job_prefix polish_range =
     ''sbatch -p sysgen --nodes=1 --job-name='' @ make_job_name job_prefix polish_range
       @ '' --ntasks=1 --cpus-per-task=2 --mem=4096 --time=0-4:0:00 --wrap '' @ dquote
       @ variants_command l polish_range @ dquote"

text \<open>The submission loop (lines 56 to 61): the first rejected submission ends it.\<close>

fun launch_jobs ::
  "env \<Rightarrow> locals \<Rightarrow> string \<Rightarrow> string list \<Rightarrow> world \<Rightarrow> (error + unit) \<times> world" where
  "launch_jobs e l job_prefix [] w = (Inr (), w)"
| "launch_jobs e l job_prefix (polish_range # rest) w =
     and_then
       (subprocess_run e (sbatch_command l job_prefix polish_range)
          (print (sbatch_command l job_prefix polish_range) w))
       (\<lambda>out. launch_jobs e l job_prefix rest)"

text \<open>Lines 28 to 34: the workspace is made and entered.\<close>

definition enter_workspace :: "locals \<Rightarrow> world \<Rightarrow> (error + unit) \<times> world" where
  "enter_workspace l w =
     and_then (os_mkdir (temp_dir l)
                 (print (newline @ ''Preparing to run Nanopolish for '' @ set_name l) w))
     (\<lambda>u w. os_chdir (temp_dir l) (print (''Moving into '' @ temp_dir l) w))"

text \<open>Lines 40 to 61, for the ranges found: alignment, index and submission.\<close>

definition align_and_launch ::
  "env \<Rightarrow> locals \<Rightarrow> string list \<Rightarrow> world \<Rightarrow> (error + unit) \<times> world" where
  "align_and_launch e l polish_ranges w =
     and_then (subprocess_run e (alignment_command l) (print ''Aligning reads'' w))
     (\<lambda>out w. and_then (subprocess_run e ''samtools index reads.sorted.bam'' w)
     (\<lambda>out w. and_then (subprocess_run e (index_command l)
                           (print ''Running nanopolish index:'' w))
     (\<lambda>out w. launch_jobs e l (make_job_prefix (pid l)) polish_ranges
                 (print ''Launching SLURM jobs:'' w))))"

text \<open>
  Lines 16 to 61: arguments, workspace, ranges, alignment, index and submission. The
  result is the locals and the list of ranges.
\<close>

definition startup :: "env \<Rightarrow> world \<Rightarrow> (error + locals \<times> string list) \<times> world" where
  "startup e w =
     (case read_args e of
        Inl err \<Rightarrow> (Inl err, w)
      | Inr l \<Rightarrow>
          and_then (enter_workspace l w)
          (\<lambda>u w. and_then (get_nanopolish_ranges e (nanopolish_makerange l) (assembly_filename l)
                              (print_noend ''Getting ranges: '' w))
          (\<lambda>polish_ranges w.
             and_then (align_and_launch e l polish_ranges
                         (print (py_join '', '' polish_ranges) w))
          (\<lambda>u w. (Inr (l, polish_ranges), w)))))"

text \<open>
  One round of the waiting loop (lines 66 to 72): sleep, ask the queue, and either leave
  the loop (\<open>Inr True\<close>) or go round again (\<open>Inr False\<close>).
\<close>

definition wait_round ::
  "env \<Rightarrow> string \<Rightarrow> int \<Rightarrow> world \<Rightarrow> (error + bool) \<times> world" where
  "wait_round e job_prefix start_time w =
     and_then (get_remaining_nanopolish_jobs e job_prefix (time_sleep e 60 w))
       (\<lambda>remaining_jobs w'.
          if remaining_jobs = 0 then (Inr True, print ''All Nanopolish jobs are done!'' w')
          else (Inr False,
                print (''Waiting for Nanopolish jobs to finish... (''
                         @ str_int (clock e w' - start_time) @ '' sec elapsed, ''
                         @ str_nat remaining_jobs @ '' jobs remaining)'') w'))"

text \<open>The loop has no bound: \<open>None\<close> is a run that waits for ever.\<close>

partial_function (option) wait_for_jobs ::
  "env \<Rightarrow> string \<Rightarrow> int \<Rightarrow> world \<Rightarrow> ((error + unit) \<times> world) option" where
  "wait_for_jobs e job_prefix start_time w =
     (case wait_round e job_prefix start_time w of
        (Inl err, w') \<Rightarrow> Some (Inl err, w')
      | (Inr done, w') \<Rightarrow>
          if done then Some (Inr (), w') else wait_for_jobs e job_prefix start_time w')"

text \<open>Lines 75 to 88: a file of Ns for every range without output.\<close>

definition fasta_filename :: "string \<Rightarrow> string" where
  "fasta_filename x = ''polished.'' @ x @ ''.fa''"

definition range_start :: "string \<Rightarrow> int option" where
  "range_start incomplete_range =
     py_int (hd (py_split ''-'' (last (py_split '':'' incomplete_range))))"

definition range_end :: "string \<Rightarrow> int option" where
  "range_end incomplete_range = py_int (last (py_split ''-'' incomplete_range))"

text \<open>What the five \<^verbatim>\<open>write\<close> calls leave in the file when \<open>range_size\<close> Ns are written.\<close>

definition empty_range_text :: "string \<Rightarrow> int \<Rightarrow> string" where
  "empty_range_text incomplete_range range_size =
     ''>'' @ incomplete_range @ newline @ replicate (nat range_size) CHR ''N'' @ newline"

text \<open>
  Lines 83 to 88. The file is opened, the header is written, and then the Ns are made: when
  that raises, the file is closed with the header alone in it.
\<close>

definition write_empty_range :: "string \<Rightarrow> int \<Rightarrow> world \<Rightarrow> (error + unit) \<times> world" where
  "write_empty_range incomplete_range range_size w =
     and_then (open_wt (fasta_filename incomplete_range) w)
       (\<lambda>u w.
          (let f = fasta_filename incomplete_range;
               w1 = file_write f newline (file_write f incomplete_range (file_write f ''>'' w))
           in case py_repeat ''N'' range_size w1 of
                Inl err \<Rightarrow> (Inl err, w1)
              | Inr ns \<Rightarrow> (Inr (), file_write f newline (file_write f ns w1))))"

fun fill_ranges :: "string list \<Rightarrow> world \<Rightarrow> (error + unit) \<times> world" where
  "fill_ranges [] w = (Inr (), w)"
| "fill_ranges (incomplete_range # rest) w =
     (case range_start incomplete_range of
        None \<Rightarrow> (Inl ValueError, w)
      | Some start \<Rightarrow>
          (case range_end incomplete_range of
             None \<Rightarrow> (Inl ValueError, w)
           | Some end \<Rightarrow>
               and_then (write_empty_range incomplete_range (end - start) w)
                 (\<lambda>u. fill_ranges rest)))"

definition incomplete_ranges :: "string list \<Rightarrow> world \<Rightarrow> string list" where
  "incomplete_ranges polish_ranges w = filter (\<lambda>x. \<not> isfile w (fasta_filename x)) polish_ranges"

definition make_empty_ranges :: "string list \<Rightarrow> world \<Rightarrow> (error + unit) \<times> world" where
  "make_empty_ranges polish_ranges w =
     (let incomplete = incomplete_ranges polish_ranges w
      in fill_ranges incomplete
           (if incomplete \<noteq> []
            then print (''WARNING: some ranges did not complete: '' @ py_join '', '' incomplete) w
            else w))"

text \<open>Lines 91 to 96: the merge, then leaving and removing the workspace.\<close>

definition merge_command :: "locals \<Rightarrow> string" where
  "merge_command l =
     ''python '' @ nanopolish_merge l @ '' polished.*.fa > '' @ (''../'' @ set_name l @ ''.fasta'')"

definition merge_results :: "env \<Rightarrow> locals \<Rightarrow> world \<Rightarrow> (error + unit) \<times> world" where
  "merge_results e l w =
     and_then (subprocess_run e (merge_command l) w)
     (\<lambda>out w. and_then (os_chdir ''..'' w)
     (\<lambda>u w. shutil_rmtree (temp_dir l) w))"

definition main :: "env \<Rightarrow> world \<Rightarrow> ((error + unit) \<times> world) option" where
  "main e w =
     (case startup e w of
        (Inl err, w1) \<Rightarrow> Some (Inl err, w1)
      | (Inr (l, polish_ranges), w1) \<Rightarrow>
          (case wait_for_jobs e (make_job_prefix (pid l)) (clock e w1) w1 of
             None \<Rightarrow> None
           | Some (Inl err, w2) \<Rightarrow> Some (Inl err, w2)
           | Some (Inr u, w2) \<Rightarrow>
               Some (and_then (make_empty_ranges polish_ranges w2) (\<lambda>u. merge_results e l))))"

subsection \<open>What the shell does with the merge command\<close>

text \<open>
  The merge command holds the pattern \<^verbatim>\<open>polished.*.fa\<close>. The shell replaces it by the names
  in the current directory that match it, sorted (byte order, as in the C locale); \<open>*\<close>
  stands for any text without a slash. A pattern that matches nothing stays as it is.
\<close>

definition glob_match :: "string \<Rightarrow> bool" where
  "glob_match n =
     (prefix ''polished.'' n \<and> suffix ''.fa'' n \<and> 12 \<le> length n \<and> CHR ''/'' \<notin> set n)"

definition sh_glob :: "string list \<Rightarrow> string list" where
  "sh_glob names =
     (let ms = sort (filter glob_match names)
      in if ms = [] then [''polished.*.fa''] else ms)"

text \<open>The files the merge script is called with, in the order of its arguments.\<close>

definition merge_inputs :: "world \<Rightarrow> string list" where
  "merge_inputs w = sh_glob (map fst (files w))"

subsection \<open>Notions used in the properties\<close>

text \<open>
  A file can be opened for writing at a name when nothing stands in the way of
  \<^const>\<open>open_wt\<close>, and \<open>n\<close> Ns can be made when \<open>n\<close> is an index and the memory is there.
\<close>

definition writable :: "world \<Rightarrow> string \<Rightarrow> bool" where
  "writable w p =
     (CHR 0x00 \<notin> set p \<and> CHR ''/'' \<notin> set p \<and> map_of (files w) p \<noteq> Some Dir
      \<and> os_refuses w (OpenWrite p) = None)"

definition fits :: "world \<Rightarrow> int \<Rightarrow> bool" where
  "fits w n = (- sys_maxsize - 1 \<le> n \<and> n \<le> sys_maxsize \<and> os_refuses w (Alloc n) = None)"

text \<open>A range can be filled when its bounds are integers, its file can be opened and its Ns made.\<close>

definition fillable :: "world \<Rightarrow> string \<Rightarrow> bool" where
  "fillable w r =
     (case range_start r of
        None \<Rightarrow> False
      | Some start \<Rightarrow>
          (case range_end r of
             None \<Rightarrow> False
           | Some end \<Rightarrow> writable w (fasta_filename r) \<and> fits w (end - start)))"

text \<open>The lines of a file, cut at the newline character.\<close>

definition file_lines :: "string \<Rightarrow> string list" where
  "file_lines text = py_split newline text"

text \<open>A command that ended with a status other than 0.\<close>

fun failed :: "event \<Rightarrow> bool" where
  "failed (Run cmd rc) = (rc \<noteq> 0)"
| "failed ev = False"

text \<open>
  A stretch of the trace is in order for a result when none of its events but the last is a
  failed command, and a failed command at its end is the error of the result.
\<close>

fun halts_at_failure :: "event list \<Rightarrow> error + 'a \<Rightarrow> bool" where
  "halts_at_failure [] r = True"
| "halts_at_failure [ev] r =
     (case ev of
        Run cmd rc \<Rightarrow> rc = 0 \<or> r = Inl (CalledProcessError cmd rc)
      | _ \<Rightarrow> True)"
| "halts_at_failure (ev # ev' # tr) r = (\<not> failed ev \<and> halts_at_failure (ev' # tr) r)"

text \<open>A stage that starts in \<open>w\<close> is orderly when it only adds to the trace, and adds a stretch in order.\<close>

definition orderly :: "world \<Rightarrow> (error + 'a) \<times> world \<Rightarrow> bool" where
  "orderly w m =
     (take (length (trace w)) (trace (snd m)) = trace w \<and>
      halts_at_failure (drop (length (trace w)) (trace (snd m))) (fst m))"

text \<open>
  The world at the start of the \<open>k\<close>-th round of the waiting loop, counted from 0, and what
  the queue query of a round starting in \<open>w\<close> returns.
\<close>

definition round_start :: "env \<Rightarrow> string \<Rightarrow> int \<Rightarrow> world \<Rightarrow> nat \<Rightarrow> world" where
  "round_start e job_prefix start_time w k =
     ((\<lambda>v. snd (wait_round e job_prefix start_time v)) ^^ k) w"

definition poll :: "env \<Rightarrow> string \<Rightarrow> world \<Rightarrow> error + nat" where
  "poll e job_prefix w = fst (get_remaining_nanopolish_jobs e job_prefix (time_sleep e 60 w))"

subsection \<open>Example worlds\<close>

text \<open>A workspace after the queue has emptied: the job of the first range left its output.\<close>

definition done_world :: world where
  "done_world =
     \<lparr>paths = [''/'' \<mapsto> Dir, ''/out'' \<mapsto> Dir, ''/out/12_temp_dir'' \<mapsto> Dir],
      files = [(''polished.c1:0-100.fa'', File (''>c1:0-100'' @ newline @ ''ACGT'' @ newline)),
               (''reads.sorted.bam'', File [])],
      os_refuses = (\<lambda>c. None),
      trace = [],
      stdout = []\<rparr>"

text \<open>
  A run of process 12 on an assembly of two ranges. In \<open>waiting_env\<close> the queue shows one
  job of the run at the first query and none at the second, and the job of the first range
  leaves its output during the first sleep. In \<open>quiet_env\<close> every command ends with status
  0 and prints nothing.
\<close>

definition start_world :: world where
  "start_world =
     \<lparr>paths = [''/'' \<mapsto> Dir, ''/out'' \<mapsto> Dir],
      files = [],
      os_refuses = (\<lambda>c. None),
      trace = [],
      stdout = []\<rparr>"

definition waiting_shell :: "string \<Rightarrow> world \<Rightarrow> cmd_result" where
  "waiting_shell cmd w =
     (if cmd = makerange_command ''/np/scripts/nanopolish_makerange.py'' ''/d/asm.fasta''
      then \<lparr>returncode = 0,
            captured = ''c1:0-100'' @ newline @ ''c1:100-150'' @ newline,
            files_after = files w\<rparr>
      else if cmd = squeue_command
      then \<lparr>returncode = 0,
            captured =
              (if length (filter (\<lambda>ev. ev = Sleep 60) (trace w)) < 2
               then ''NAME JOBID STATE'' @ newline
                      @ ''Nanopolish_12_c1:100-150 7 RUNNING'' @ newline
               else ''NAME JOBID STATE'' @ newline),
            files_after = files w\<rparr>
      else \<lparr>returncode = 0, captured = [], files_after = files w\<rparr>)"

definition waiting_env :: env where
  "waiting_env =
     \<lparr>argv = [''nanopolish_slurm_wrapper.py'', ''/d/asm.fasta'', ''/d/reads.fq'', ''/d/f5'',
              ''/out'', ''/np'', ''4''],
      getpid = 12,
      abspath = (\<lambda>p. p),
      shell = waiting_shell,
      asleep = (\<lambda>n w. if map_of (files w) ''polished.c1:0-100.fa'' = None
                       then files w @ [(''polished.c1:0-100.fa'',
                                        File (''>c1:0-100'' @ newline @ ''ACGT'' @ newline))]
                       else files w),
      clock = (\<lambda>w. 60 * int (length (filter (\<lambda>ev. ev = Sleep 60) (trace w))))\<rparr>"

definition quiet_env :: env where
  "quiet_env =
     waiting_env\<lparr>shell := (\<lambda>cmd w. \<lparr>returncode = 0, captured = [], files_after = files w\<rparr>),
                 asleep := (\<lambda>n w. files w)\<rparr>"

definition demo_locals :: locals where
  "demo_locals =
     \<lparr>assembly_filename = ''/d/asm.fasta'',
      read_filename = ''/d/reads.fq'',
      raw_fast5_dir = ''/d/f5'',
      output_dir = ''/out'',
      nanopolish_dir = ''/np'',
      threads = 4,
      nanopolish_exec = ''/np/nanopolish'',
      nanopolish_makerange = ''/np/scripts/nanopolish_makerange.py'',
      nanopolish_merge = ''/np/scripts/nanopolish_merge.py'',
      set_name = ''asm'',
      pid = ''12'',
      temp_dir = ''/out/12_temp_dir''\<rparr>"

text \<open>As \<open>waiting_env\<close>, but the scheduler rejects the second submission.\<close>

definition rejecting_env :: env where
  "rejecting_env =
     waiting_env\<lparr>shell := (\<lambda>cmd w.
        if cmd = sbatch_command demo_locals ''Nanopolish_12_'' ''c1:100-150''
        then \<lparr>returncode = 1, captured = [], files_after = files w\<rparr>
        else waiting_shell cmd w)\<rparr>"

text \<open>As \<open>waiting_env\<close>, but the range tool fails.\<close>

definition unplanned_env :: env where
  "unplanned_env =
     waiting_env\<lparr>shell := (\<lambda>cmd w.
        if cmd = makerange_command ''/np/scripts/nanopolish_makerange.py'' ''/d/asm.fasta''
        then \<lparr>returncode = 2, captured = [], files_after = files w\<rparr>
        else waiting_shell cmd w)\<rparr>"

text \<open>As \<open>waiting_env\<close>, but the queue shows a job of the run at every query.\<close>

definition pending_listing :: string where
  "pending_listing =
     ''NAME JOBID STATE'' @ newline @ ''Nanopolish_12_c1:100-150 7 PENDING'' @ newline"

definition stuck_env :: env where
  "stuck_env =
     waiting_env\<lparr>shell := (\<lambda>cmd w.
        if cmd = squeue_command
        then \<lparr>returncode = 0, captured = pending_listing, files_after = files w\<rparr>
        else waiting_shell cmd w)\<rparr>"

section \<open>Properties\<close>

subsection \<open>The filler\<close>

lemma py_split_nonempty: "py_split sep s \<noteq> []"
  by (induction sep s rule: py_split.induct) (auto split: list.splits)

lemma fasta_filename_inj: "fasta_filename x = fasta_filename y \<longleftrightarrow> x = y"
  by (simp add: fasta_filename_def)

lemma and_then_Inl [simp]: "and_then (Inl err, w) f = (Inl err, w)"
  by (simp add: and_then_def)

lemma and_then_Inr [simp]: "and_then (Inr a, w) f = f a w"
  by (simp add: and_then_def)

lemma and_then_InrD:
  "and_then m f = (Inr b, w') \<Longrightarrow> \<exists>a v. m = (Inr a, v) \<and> f a v = (Inr b, w')"
  by (cases m; cases "fst m") auto

lemma open_wt_cases:
  "open_wt p w = (Inr u, w') \<Longrightarrow>
     w' = w\<lparr>files := AList.update p (File []) (files w), trace := trace w @ [Write p]\<rparr>
     \<and> writable w p"
  by (auto simp: open_wt_def writable_def split: if_splits option.splits entry.splits)

lemma open_wt_writable:
  "writable w p \<Longrightarrow>
     open_wt p w = (Inr (), w\<lparr>files := AList.update p (File []) (files w),
                               trace := trace w @ [Write p]\<rparr>)"
  by (auto simp: open_wt_def writable_def split: if_splits option.splits entry.splits)

lemma open_wt_error: "open_wt p w = (Inl err, w') \<Longrightarrow> w' = w"
  by (auto simp: open_wt_def split: if_splits option.splits entry.splits)

lemma map_of_file_write:
  "map_of (files (file_write p t w)) q
     = (if q = p then Some (File (file_text w p @ t)) else map_of (files w) q)"
  by (simp add: file_write_def update_conv')

lemma file_text_file_write [simp]: "file_text (file_write p t w) p = file_text w p @ t"
  by (simp add: file_text_def map_of_file_write)

lemma os_refuses_file_write [simp]: "os_refuses (file_write p t w) = os_refuses w"
  by (simp add: file_write_def)

lemma trace_file_write [simp]: "trace (file_write p t w) = trace w"
  by (simp add: file_write_def)

lemma keys_file_write:
  "p \<in> set (map fst (files w)) \<Longrightarrow> map fst (files (file_write p t w)) = map fst (files w)"
  by (simp add: file_write_def update_keys)

lemma py_repeat_N:
  "py_repeat ''N'' k w = Inr ns \<Longrightarrow> ns = replicate (nat k) CHR ''N''"
  by (induction "nat k") (auto simp: py_repeat_def split: if_splits option.splits)

lemma py_repeat_fits:
  "fits w k \<Longrightarrow> py_repeat ''N'' k w = Inr (replicate (nat k) CHR ''N'')"
proof -
  have "concat (replicate n ''N'') = replicate n CHR ''N''" for n
    by (induction n) simp_all
  moreover assume "fits w k"
  ultimately show ?thesis by (simp add: py_repeat_def fits_def)
qed

text \<open>The header that the first three writes leave in the file just opened.\<close>

lemma header_written:
  "file_text (file_write f newline (file_write f r (file_write f ''>''
      (w\<lparr>files := AList.update f (File []) (files w), trace := tr\<rparr>)))) f
     = ''>'' @ r @ newline"
  by (simp add: file_text_def [of "w\<lparr>files := AList.update f (File []) (files w), trace := tr\<rparr>"]
      update_conv')

lemma written_world:
  "file_write f newline (file_write f (replicate (nat k) CHR ''N'')
     (file_write f newline (file_write f r (file_write f ''>''
        (w\<lparr>files := AList.update f (File []) (files w), trace := tr\<rparr>)))))
   = w\<lparr>files := AList.update f (File (empty_range_text r k)) (files w), trace := tr\<rparr>"
  by (simp add: file_write_def file_text_def update_conv' empty_range_text_def)

lemma fits_same_os: "os_refuses v = os_refuses w \<Longrightarrow> fits v k = fits w k"
  by (simp add: fits_def)

lemma write_empty_range_eq:
  assumes "writable w (fasta_filename r)" and "fits w k"
  shows "write_empty_range r k w
     = (Inr (), w\<lparr>files := AList.update (fasta_filename r) (File (empty_range_text r k)) (files w),
                   trace := trace w @ [Write (fasta_filename r)]\<rparr>)"
proof -
  let ?f = "fasta_filename r"
  let ?v = "w\<lparr>files := AList.update ?f (File []) (files w), trace := trace w @ [Write ?f]\<rparr>"
  let ?w1 = "file_write ?f newline (file_write ?f r (file_write ?f ''>'' ?v))"
  have "fits ?w1 k" using assms(2) by (simp add: fits_def)
  then have "py_repeat ''N'' k ?w1 = Inr (replicate (nat k) CHR ''N'')"
    by (rule py_repeat_fits)
  then show ?thesis
    unfolding write_empty_range_def open_wt_writable [OF assms(1)] and_then_Inr Let_def
    by (simp only: sum.case written_world)
qed

lemma write_empty_range_InrD:
  assumes "write_empty_range r k w = (Inr u, w')"
  shows "writable w (fasta_filename r)
     \<and> w' = w\<lparr>files := AList.update (fasta_filename r) (File (empty_range_text r k)) (files w),
               trace := trace w @ [Write (fasta_filename r)]\<rparr>"
proof -
  let ?f = "fasta_filename r"
  let ?v = "w\<lparr>files := AList.update ?f (File []) (files w), trace := trace w @ [Write ?f]\<rparr>"
  let ?w1 = "file_write ?f newline (file_write ?f r (file_write ?f ''>'' ?v))"
  from assms obtain a v where o: "open_wt ?f w = (Inr a, v)"
    unfolding write_empty_range_def by (auto dest!: and_then_InrD)
  from open_wt_cases [OF o] have v: "v = ?v" and wr: "writable w ?f" by simp_all
  from assms o v have c: "(case py_repeat ''N'' k ?w1 of
        Inl err \<Rightarrow> (Inl err, ?w1)
      | Inr ns \<Rightarrow> (Inr (), file_write ?f newline (file_write ?f ns ?w1))) = (Inr u, w')"
    unfolding write_empty_range_def by (simp add: Let_def)
  then obtain ns where ns: "py_repeat ''N'' k ?w1 = Inr ns"
    by (cases "py_repeat ''N'' k ?w1") simp_all
  from py_repeat_N [OF ns] have "ns = replicate (nat k) CHR ''N''" .
  with c ns have "w' = file_write ?f newline (file_write ?f (replicate (nat k) CHR ''N'') ?w1)"
    by simp
  with wr show ?thesis by (simp only: written_world)
qed

lemma write_empty_range_frame:
  assumes "q \<noteq> fasta_filename r"
  shows "map_of (files (snd (write_empty_range r k w))) q = map_of (files w) q"
proof -
  let ?f = "fasta_filename r"
  obtain res v where o: "open_wt ?f w = (res, v)" by (cases "open_wt ?f w")
  show ?thesis
  proof (cases res)
    case (Inl err)
    with o open_wt_error [of ?f w err v] show ?thesis
      by (simp add: write_empty_range_def)
  next
    case (Inr a)
    from open_wt_cases [OF o [unfolded Inr]] have
      v: "map_of (files v) q = map_of (files w) q"
      using assms by (simp add: update_conv')
    let ?w1 = "file_write ?f newline (file_write ?f r (file_write ?f ''>'' v))"
    have w1: "map_of (files ?w1) q = map_of (files w) q"
      using assms v by (simp add: map_of_file_write)
    show ?thesis
    proof (cases "py_repeat ''N'' k ?w1")
      case (Inl err)
      with o \<open>res = Inr a\<close> w1 show ?thesis
        by (simp add: write_empty_range_def Let_def)
    next
      case (Inr ns)
      with o \<open>res = Inr a\<close> w1 assms show ?thesis
        by (simp add: write_empty_range_def Let_def map_of_file_write)
    qed
  qed
qed

lemma fill_ranges_frame:
  "q \<notin> fasta_filename ` set rs \<Longrightarrow> map_of (files (snd (fill_ranges rs w))) q = map_of (files w) q"
proof (induction rs arbitrary: w)
  case Nil
  then show ?case by simp
next
  case (Cons r rs)
  from Cons.prems have q: "q \<noteq> fasta_filename r" and rest: "q \<notin> fasta_filename ` set rs"
    by auto
  show ?case
  proof (cases "range_start r")
    case None
    then show ?thesis by simp
  next
    case (Some s)
    note start = this
    show ?thesis
    proof (cases "range_end r")
      case None
      with start show ?thesis by simp
    next
      case (Some e)
      obtain res w1 where o: "write_empty_range r (e - s) w = (res, w1)"
        by (cases "write_empty_range r (e - s) w")
      have w1: "map_of (files w1) q = map_of (files w) q"
        using write_empty_range_frame [OF q, of "e - s" w] o by simp
      show ?thesis
      proof (cases res)
        case (Inl err)
        with start Some o w1 show ?thesis by simp
      next
        case (Inr u)
        with start Some o w1 Cons.IH [OF rest, of w1] show ?thesis by simp
      qed
    qed
  qed
qed

lemma isfile_print [simp]: "isfile (print s w) p = isfile w p"
  by (simp add: isfile_def print_def)

lemma files_print [simp]: "files (print s w) = files w"
  by (simp add: print_def)

lemma make_empty_ranges_frame:
  "q \<notin> fasta_filename ` set (incomplete_ranges ranges w) \<Longrightarrow>
     map_of (files (snd (make_empty_ranges ranges w))) q = map_of (files w) q"
  by (simp add: make_empty_ranges_def Let_def fill_ranges_frame)

text \<open>
  C9. A range whose file \<^verbatim>\<open>polished.<range>.fa\<close> is there when the filler starts keeps that
  file, with its contents, whatever the filler does for the other ranges and whether or not
  it runs to its end.
\<close>

theorem existing_output_untouched:
  "isfile w (fasta_filename r) \<Longrightarrow>
     map_of (files (snd (make_empty_ranges ranges w))) (fasta_filename r)
       = map_of (files w) (fasta_filename r)
     \<and> isfile (snd (make_empty_ranges ranges w)) (fasta_filename r)"
proof -
  assume a: "isfile w (fasta_filename r)"
  have "fasta_filename r \<notin> fasta_filename ` set (incomplete_ranges ranges w)"
    using a by (auto simp: incomplete_ranges_def fasta_filename_inj)
  then have "map_of (files (snd (make_empty_ranges ranges w))) (fasta_filename r)
       = map_of (files w) (fasta_filename r)"
    by (rule make_empty_ranges_frame)
  with a show ?thesis by (simp add: isfile_def)
qed

theorem existing_output_untouched_witness:
  "isfile done_world (fasta_filename ''c1:0-100'')
   \<and> map_of (files (snd (make_empty_ranges [''c1:0-100'', ''c1:100-150''] done_world)))
         (fasta_filename ''c1:0-100'')
       = Some (File (''>c1:0-100'' @ newline @ ''ACGT'' @ newline))"
proof -
  have h: "isfile done_world (fasta_filename ''c1:0-100'')"
    by (simp add: isfile_def done_world_def fasta_filename_def)
  show ?thesis
    using h existing_output_untouched [OF h, of "[''c1:0-100'', ''c1:100-150'']"]
    by (simp add: done_world_def fasta_filename_def)
qed

lemma writable_after_write:
  "writable w q \<Longrightarrow>
   writable (w\<lparr>files := AList.update p (File t) (files w), trace := tr\<rparr>) q"
  by (simp add: writable_def update_conv')

lemma fillable_after_write:
  "fillable w q \<Longrightarrow>
   fillable (w\<lparr>files := AList.update p (File t) (files w), trace := tr\<rparr>) q"
  by (auto simp: fillable_def fits_def writable_after_write split: option.splits)

lemma writable_print [simp]: "writable (print s w) p = writable w p"
  by (simp add: writable_def print_def)

lemma fits_print [simp]: "fits (print s w) k = fits w k"
  by (simp add: fits_def print_def)

lemma fillable_print [simp]: "fillable (print s w) r = fillable w r"
  by (simp add: fillable_def split: option.splits)

lemma fill_ranges_ok:
  "\<forall>r\<in>set rs. fillable w r \<Longrightarrow>
   \<exists>w'. fill_ranges rs w = (Inr (), w') \<and>
        (\<forall>r\<in>set rs. map_of (files w') (fasta_filename r)
            = Some (File (empty_range_text r (the (range_end r) - the (range_start r)))))"
proof (induction rs arbitrary: w)
  case Nil
  then show ?case by simp
next
  case (Cons r rs)
  from Cons.prems have "fillable w r" by simp
  then obtain s e where s: "range_start r = Some s" and e: "range_end r = Some e"
    and wr: "writable w (fasta_filename r)" and ft: "fits w (e - s)"
    by (auto simp: fillable_def split: option.splits)
  let ?t = "empty_range_text r (e - s)"
  let ?w1 = "w\<lparr>files := AList.update (fasta_filename r) (File ?t) (files w),
               trace := trace w @ [Write (fasta_filename r)]\<rparr>"
  have o: "write_empty_range r (e - s) w = (Inr (), ?w1)"
    using wr ft by (rule write_empty_range_eq)
  have "\<forall>r\<in>set rs. fillable ?w1 r"
    using Cons.prems by (simp add: fillable_after_write)
  from Cons.IH [OF this] obtain w' where
    f: "fill_ranges rs ?w1 = (Inr (), w')" and
    c: "\<forall>r\<in>set rs. map_of (files w') (fasta_filename r)
            = Some (File (empty_range_text r (the (range_end r) - the (range_start r))))"
    by blast
  have step: "fill_ranges (r # rs) w = (Inr (), w')"
    using s e o f by simp
  have "map_of (files w') (fasta_filename r) = Some (File ?t)"
  proof (cases "r \<in> set rs")
    case True
    with c s e show ?thesis by auto
  next
    case False
    then have "fasta_filename r \<notin> fasta_filename ` set rs"
      by (auto simp: fasta_filename_inj)
    from fill_ranges_frame [OF this, of ?w1] f show ?thesis
      by (simp add: update_conv')
  qed
  with c s e step show ?case by simp
qed

lemma py_split_char_none: "c \<notin> set a \<Longrightarrow> py_split [c] a = [a]"
  by (induction a) auto

lemma py_split_char_first: "c \<notin> set a \<Longrightarrow> py_split [c] (a @ c # rest) = a # py_split [c] rest"
  by (induction a) auto

lemma file_lines_empty_range_text:
  assumes "CHR 0x0A \<notin> set r"
  shows "file_lines (empty_range_text r k) = [''>'' @ r, replicate (nat k) CHR ''N'', []]"
proof -
  have a: "CHR 0x0A \<notin> set (''>'' @ r)" using assms by simp
  have b: "CHR 0x0A \<notin> set (replicate (nat k) CHR ''N'')" by auto
  have "py_split [CHR 0x0A] ((''>'' @ r) @ CHR 0x0A # (replicate (nat k) CHR ''N'' @ CHR 0x0A # []))
      = (''>'' @ r) # py_split [CHR 0x0A] (replicate (nat k) CHR ''N'' @ CHR 0x0A # [])"
    using a by (rule py_split_char_first)
  also have "py_split [CHR 0x0A] (replicate (nat k) CHR ''N'' @ CHR 0x0A # [])
      = replicate (nat k) CHR ''N'' # py_split [CHR 0x0A] []"
    using b by (rule py_split_char_first)
  finally show ?thesis
    by (simp add: file_lines_def empty_range_text_def newline_def)
qed




lemma fill_ranges_success:
  "fill_ranges rs w = (Inr (), w') \<Longrightarrow>
     (\<forall>r\<in>set rs. CHR ''/'' \<notin> set (fasta_filename r) \<and> CHR 0x00 \<notin> set (fasta_filename r) \<and>
         (\<exists>k. map_of (files w') (fasta_filename r) = Some (File (empty_range_text r k)))) \<and>
     set (map fst (files w')) = set (map fst (files w)) \<union> fasta_filename ` set rs \<and>
     (distinct (map fst (files w)) \<longrightarrow> distinct (map fst (files w')))"
proof (induction rs arbitrary: w)
  case Nil
  then show ?case by simp
next
  case (Cons r rs)
  from Cons.prems obtain s e where s: "range_start r = Some s" and e: "range_end r = Some e"
    by (auto split: option.splits)
  let ?t = "empty_range_text r (e - s)"
  obtain res w1 where o: "write_empty_range r (e - s) w = (res, w1)"
    by (cases "write_empty_range r (e - s) w")
  from Cons.prems s e o have res: "res = Inr ()" and f: "fill_ranges rs w1 = (Inr (), w')"
    by (auto simp: and_then_def split: sum.splits)
  from write_empty_range_InrD [OF o [unfolded res]] have
    w1: "w1 = w\<lparr>files := AList.update (fasta_filename r) (File ?t) (files w),
                trace := trace w @ [Write (fasta_filename r)]\<rparr>"
    and wr: "writable w (fasta_filename r)" by auto
  note ih = Cons.IH [OF f]
  have keys1: "set (map fst (files w1)) = insert (fasta_filename r) (set (map fst (files w)))"
    by (auto simp: w1 update_keys)
  have d1: "distinct (map fst (files w)) \<longrightarrow> distinct (map fst (files w1))"
    by (simp add: w1 distinct_update)
  have here: "\<exists>k. map_of (files w') (fasta_filename r) = Some (File (empty_range_text r k))"
  proof (cases "r \<in> set rs")
    case True
    with ih show ?thesis by blast
  next
    case False
    then have "fasta_filename r \<notin> fasta_filename ` set rs"
      by (auto simp: fasta_filename_inj)
    from fill_ranges_frame [OF this, of w1] f have
      "map_of (files w') (fasta_filename r) = Some (File ?t)"
      by (simp add: w1 update_conv')
    then show ?thesis by blast
  qed
  have "CHR ''/'' \<notin> set (fasta_filename r) \<and> CHR 0x00 \<notin> set (fasta_filename r)"
    using wr by (simp add: writable_def)
  with here ih keys1 d1 show ?case by auto
qed

lemma isfile_listed: "isfile w p \<Longrightarrow> p \<in> set (map fst (files w)) \<and> CHR ''/'' \<notin> set p"
  by (auto simp: isfile_def split: option.splits dest: map_of_SomeD intro: rev_image_eqI)

lemma glob_match_fasta_filename: "CHR ''/'' \<notin> set (fasta_filename r) \<Longrightarrow> glob_match (fasta_filename r)"
  by (simp add: glob_match_def fasta_filename_def suffix_def)

lemma count_list_distinct: "distinct xs \<Longrightarrow> x \<in> set xs \<Longrightarrow> count_list xs x = 1"
  by (induction xs) auto

lemma count_list_sh_glob:
  assumes "distinct names" and "p \<in> set names" and "glob_match p"
  shows "count_list (sh_glob names) p = 1"
proof -
  let ?ms = "sort (filter glob_match names)"
  from assms have mem: "p \<in> set ?ms" by simp
  have ne: "?ms \<noteq> []"
  proof
    assume "?ms = []"
    with mem show False by (metis empty_iff list.set(1))
  qed
  have "distinct ?ms" using assms(1) by simp
  with mem have "count_list ?ms p = 1"
    by (simp add: count_list_distinct)
  with ne show ?thesis by (simp add: sh_glob_def Let_def)
qed




subsection \<open>The waiting loop\<close>

lemma trace_print [simp]: "trace (print s w) = trace w"
  by (simp add: print_def)

lemma squeue_command_no_nul [simp]: "CHR 0x00 \<notin> set squeue_command"
  by (simp add: squeue_command_def dquote_def)

lemma wait_round_poll:
  "fst (wait_round e p s w) = (case poll e p w of Inl err \<Rightarrow> Inl err | Inr n \<Rightarrow> Inr (n = 0))"
  by (simp add: wait_round_def poll_def and_then_def split: prod.splits sum.splits)

lemma poll_eq:
  "poll e p w =
     (if returncode (shell e squeue_command (time_sleep e 60 w)) = 0
      then (if utf8_valid (captured (shell e squeue_command (time_sleep e 60 w)))
            then Inr (length (filter (py_in p)
                   (str_splitlines (captured (shell e squeue_command (time_sleep e 60 w))))))
            else Inl UnicodeDecodeError)
      else Inl (CalledProcessError squeue_command
                  (returncode (shell e squeue_command (time_sleep e 60 w)))))"
  by (simp add: poll_def get_remaining_nanopolish_jobs_def subprocess_run_def and_then_def
      decode_def Let_def)

lemma wait_round_trace:
  "trace (snd (wait_round e p s w))
     = trace w @ [Sleep 60, Run squeue_command (returncode (shell e squeue_command (time_sleep e 60 w)))]"
  by (simp add: wait_round_def get_remaining_nanopolish_jobs_def subprocess_run_def and_then_def
      decode_def Let_def time_sleep_def)

lemma wait_again:
  "fst (wait_round e p s w) = Inr False \<Longrightarrow>
     wait_for_jobs e p s w = wait_for_jobs e p s (snd (wait_round e p s w))"
  by (subst wait_for_jobs.simps) (simp add: case_prod_unfold)

lemma wait_done:
  "fst (wait_round e p s w) = Inr True \<Longrightarrow>
     wait_for_jobs e p s w = Some (Inr (), snd (wait_round e p s w))"
  by (subst wait_for_jobs.simps) (simp add: case_prod_unfold)

lemma wait_raised:
  "fst (wait_round e p s w) = Inl err \<Longrightarrow>
     wait_for_jobs e p s w = Some (Inl err, snd (wait_round e p s w))"
  by (subst wait_for_jobs.simps) (simp add: case_prod_unfold)

lemma round_start_0 [simp]: "round_start e p s w 0 = w"
  by (simp add: round_start_def)

lemma round_start_Suc:
  "round_start e p s w (Suc k) = round_start e p s (snd (wait_round e p s w)) k"
  by (simp only: round_start_def funpow_Suc_right o_apply)

lemma wait_skip:
  "\<forall>k<n. \<exists>m. poll e p (round_start e p s w k) = Inr (Suc m) \<Longrightarrow>
     wait_for_jobs e p s w = wait_for_jobs e p s (round_start e p s w n)"
proof (induction n arbitrary: w)
  case 0
  then show ?case by simp
next
  case (Suc n)
  from Suc.prems obtain m where "poll e p (round_start e p s w 0) = Inr (Suc m)"
    by blast
  then have a: "fst (wait_round e p s w) = Inr False"
    by (simp add: wait_round_poll)
  have "\<forall>k<n. \<exists>m. poll e p (round_start e p s (snd (wait_round e p s w)) k) = Inr (Suc m)"
    using Suc.prems by (metis Suc_less_eq round_start_Suc)
  from Suc.IH [OF this] wait_again [OF a] show ?case
    by (simp add: round_start_Suc)
qed

lemma wait_returns:
  assumes "wait_for_jobs e p s w = Some y"
  shows "\<exists>n. (\<forall>k<n. \<exists>m. poll e p (round_start e p s w k) = Inr (Suc m))
            \<and> poll e p (round_start e p s w n) = (case fst y of Inl err \<Rightarrow> Inl err | Inr u \<Rightarrow> Inr 0)
            \<and> snd y = snd (wait_round e p s (round_start e p s w n))"
proof (rule wait_for_jobs.raw_induct
    [where P = "\<lambda>e p s w y. \<exists>n. (\<forall>k<n. \<exists>m. poll e p (round_start e p s w k) = Inr (Suc m))
            \<and> poll e p (round_start e p s w n) = (case fst y of Inl err \<Rightarrow> Inl err | Inr u \<Rightarrow> Inr 0)
            \<and> snd y = snd (wait_round e p s (round_start e p s w n))", OF _ assms])
  fix f :: "env \<Rightarrow> string \<Rightarrow> int \<Rightarrow> world \<Rightarrow> ((error + unit) \<times> world) option"
    and e p s w y
  assume IH: "\<And>e p s w y. f e p s w = Some y \<Longrightarrow>
      \<exists>n. (\<forall>k<n. \<exists>m. poll e p (round_start e p s w k) = Inr (Suc m))
            \<and> poll e p (round_start e p s w n) = (case fst y of Inl err \<Rightarrow> Inl err | Inr u \<Rightarrow> Inr 0)
            \<and> snd y = snd (wait_round e p s (round_start e p s w n))"
    and body: "(case wait_round e p s w of
        (Inl err, w') \<Rightarrow> Some (Inl err, w')
      | (Inr done, w') \<Rightarrow> if done then Some (Inr (), w') else f e p s w') = Some y"
  show "\<exists>n. (\<forall>k<n. \<exists>m. poll e p (round_start e p s w k) = Inr (Suc m))
            \<and> poll e p (round_start e p s w n) = (case fst y of Inl err \<Rightarrow> Inl err | Inr u \<Rightarrow> Inr 0)
            \<and> snd y = snd (wait_round e p s (round_start e p s w n))"
  proof (cases "poll e p w")
    case (Inl err)
    then have "fst (wait_round e p s w) = Inl err" by (simp add: wait_round_poll)
    with body have "y = (Inl err, snd (wait_round e p s w))"
      by (auto simp: case_prod_unfold)
    with Inl have "(\<forall>k<0. \<exists>m. poll e p (round_start e p s w k) = Inr (Suc m))
            \<and> poll e p (round_start e p s w 0) = (case fst y of Inl err \<Rightarrow> Inl err | Inr u \<Rightarrow> Inr 0)
            \<and> snd y = snd (wait_round e p s (round_start e p s w 0))"
      by simp
    then show ?thesis by blast
  next
    case (Inr n)
    show ?thesis
    proof (cases n)
      case 0
      with Inr have "fst (wait_round e p s w) = Inr True" by (simp add: wait_round_poll)
      with body have "y = (Inr (), snd (wait_round e p s w))"
        by (auto simp: case_prod_unfold)
      with Inr 0 have "(\<forall>k<0. \<exists>m. poll e p (round_start e p s w k) = Inr (Suc m))
            \<and> poll e p (round_start e p s w 0) = (case fst y of Inl err \<Rightarrow> Inl err | Inr u \<Rightarrow> Inr 0)
            \<and> snd y = snd (wait_round e p s (round_start e p s w 0))"
        by simp
      then show ?thesis by blast
    next
      case (Suc m)
      with Inr have a: "fst (wait_round e p s w) = Inr False" by (simp add: wait_round_poll)
      with body have "f e p s (snd (wait_round e p s w)) = Some y"
        by (auto simp: case_prod_unfold)
      from IH [OF this] obtain n' where
        b: "\<forall>k<n'. \<exists>m. poll e p (round_start e p s (snd (wait_round e p s w)) k) = Inr (Suc m)"
        and c: "poll e p (round_start e p s (snd (wait_round e p s w)) n')
                  = (case fst y of Inl err \<Rightarrow> Inl err | Inr u \<Rightarrow> Inr 0)"
        and d: "snd y = snd (wait_round e p s (round_start e p s (snd (wait_round e p s w)) n'))"
        by blast
      have "\<forall>k<Suc n'. \<exists>m. poll e p (round_start e p s w k) = Inr (Suc m)"
      proof (intro allI impI)
        fix k assume "k < Suc n'"
        show "\<exists>m. poll e p (round_start e p s w k) = Inr (Suc m)"
        proof (cases k)
          case 0
          with Inr Suc show ?thesis by simp
        next
          case (Suc j)
          with \<open>k < Suc n'\<close> b show ?thesis by (simp add: round_start_Suc)
        qed
      qed
      with c d show ?thesis
        unfolding round_start_Suc [symmetric] by blast
    qed
  qed
qed


lemma poll_ok_returncode: "poll e p w = Inr n \<Longrightarrow> returncode (shell e squeue_command (time_sleep e 60 w)) = 0"
  by (simp add: poll_eq split: if_splits)

lemma poll_error_returncode:
  "poll e p w = Inl err \<Longrightarrow>
     (if returncode (shell e squeue_command (time_sleep e 60 w)) = 0
      then err = UnicodeDecodeError
      else err = CalledProcessError squeue_command
                   (returncode (shell e squeue_command (time_sleep e 60 w))))"
  by (simp add: poll_eq split: if_splits)

lemma trace_round_start:
  "\<forall>k<n. \<exists>m. poll e p (round_start e p s w k) = Inr (Suc m) \<Longrightarrow>
     trace (round_start e p s w n) = trace w @ concat (replicate n [Sleep 60, Run squeue_command 0])"
proof (induction n arbitrary: w)
  case 0
  then show ?case by simp
next
  case (Suc n)
  from Suc.prems obtain m where "poll e p (round_start e p s w 0) = Inr (Suc m)"
    by blast
  then have rc: "returncode (shell e squeue_command (time_sleep e 60 w)) = 0"
    by (simp add: poll_ok_returncode)
  have "\<forall>k<n. \<exists>m. poll e p (round_start e p s (snd (wait_round e p s w)) k) = Inr (Suc m)"
    using Suc.prems by (metis Suc_less_eq round_start_Suc)
  from Suc.IH [OF this] rc show ?case
    by (simp add: round_start_Suc wait_round_trace)
qed

text \<open>
  C3. The waiting loop leaves with ``All Nanopolish jobs are done!'' exactly when one of
  its queue queries succeeds with no line that contains the job prefix, every query before
  it having succeeded with at least one such line. A query that finds such a line sends
  the loop into its next round, and a round is a sleep of 60 seconds followed by the
  query. A query gives a number exactly when \<^verbatim>\<open>squeue\<close> ends with status 0 and its output
  is UTF-8, and the number is that of the lines of the decoded listing that contain the
  prefix.
\<close>

theorem wait_exits_iff_queue_empty:
  "((\<exists>w'. wait_for_jobs e p s w = Some (Inr (), w')) \<longleftrightarrow>
      (\<exists>n. poll e p (round_start e p s w n) = Inr 0
           \<and> (\<forall>k<n. \<exists>m. poll e p (round_start e p s w k) = Inr (Suc m))))
   \<and> (\<forall>m. poll e p w = Inr (Suc m) \<longrightarrow>
          wait_for_jobs e p s w = wait_for_jobs e p s (round_start e p s w 1))
   \<and> (\<exists>rc. trace (round_start e p s w 1) = trace w @ [Sleep 60, Run squeue_command rc])
   \<and> (\<forall>n. poll e p w = Inr n \<longleftrightarrow>
          returncode (shell e squeue_command (time_sleep e 60 w)) = 0
          \<and> utf8_valid (captured (shell e squeue_command (time_sleep e 60 w)))
          \<and> n = length (filter (py_in p)
                  (str_splitlines (captured (shell e squeue_command (time_sleep e 60 w))))))"
proof -
  have fwd: "\<exists>n. poll e p (round_start e p s w n) = Inr 0
           \<and> (\<forall>k<n. \<exists>m. poll e p (round_start e p s w k) = Inr (Suc m))"
    if "wait_for_jobs e p s w = Some (Inr (), w')" for w'
    using wait_returns [OF that] by auto
  have bwd: "\<exists>w'. wait_for_jobs e p s w = Some (Inr (), w')"
    if z: "poll e p (round_start e p s w n) = Inr 0"
      and pos: "\<forall>k<n. \<exists>m. poll e p (round_start e p s w k) = Inr (Suc m)" for n
  proof -
    from z have "fst (wait_round e p s (round_start e p s w n)) = Inr True"
      by (simp add: wait_round_poll)
    from wait_done [OF this] wait_skip [OF pos] show ?thesis by simp
  qed
  have again: "wait_for_jobs e p s w = wait_for_jobs e p s (round_start e p s w 1)"
    if "poll e p w = Inr (Suc m)" for m
  proof -
    from that have "fst (wait_round e p s w) = Inr False" by (simp add: wait_round_poll)
    from wait_again [OF this] show ?thesis by (simp add: round_start_Suc)
  qed
  have tr: "\<exists>rc. trace (round_start e p s w 1) = trace w @ [Sleep 60, Run squeue_command rc]"
    by (simp add: round_start_Suc wait_round_trace)
  have cnt: "poll e p w = Inr n \<longleftrightarrow>
          returncode (shell e squeue_command (time_sleep e 60 w)) = 0
          \<and> utf8_valid (captured (shell e squeue_command (time_sleep e 60 w)))
          \<and> n = length (filter (py_in p)
                  (str_splitlines (captured (shell e squeue_command (time_sleep e 60 w)))))" for n
    by (auto simp: poll_eq)
  from fwd bwd again tr cnt show ?thesis by blast
qed

text \<open>
  C8, as amended. Every query of the queue comes right after a sleep of 60 seconds, the
  first one too: a loop that returns has done a number of rounds of sleep and successful
  query, and a last round of sleep and query. It leaves that round with CalledProcessError
  when \<^verbatim>\<open>squeue\<close> failed, and as done, or with UnicodeDecodeError for a listing that is no
  UTF-8, when it did not.
\<close>

theorem wait_sleeps_before_each_query:
  assumes "wait_for_jobs e p s w = Some (r, w')"
  shows "\<exists>n rc. trace w' = trace w @ concat (replicate n [Sleep 60, Run squeue_command 0])
                                 @ [Sleep 60, Run squeue_command rc]
              \<and> (rc = 0 \<longrightarrow> r = Inr () \<or> r = Inl UnicodeDecodeError)
              \<and> (rc \<noteq> 0 \<longrightarrow> r = Inl (CalledProcessError squeue_command rc))"
proof -
  from wait_returns [OF assms] obtain n where
    pos: "\<forall>k<n. \<exists>m. poll e p (round_start e p s w k) = Inr (Suc m)"
    and last: "poll e p (round_start e p s w n) = (case r of Inl err \<Rightarrow> Inl err | Inr u \<Rightarrow> Inr 0)"
    and w': "w' = snd (wait_round e p s (round_start e p s w n))"
    by auto
  let ?rc = "returncode (shell e squeue_command (time_sleep e 60 (round_start e p s w n)))"
  have "trace w' = trace w @ concat (replicate n [Sleep 60, Run squeue_command 0])
                     @ [Sleep 60, Run squeue_command ?rc]"
    by (simp add: w' wait_round_trace trace_round_start [OF pos])
  moreover have "(?rc = 0 \<longrightarrow> r = Inr () \<or> r = Inl UnicodeDecodeError)
      \<and> (?rc \<noteq> 0 \<longrightarrow> r = Inl (CalledProcessError squeue_command ?rc))"
  proof (cases r)
    case (Inl err)
    with last poll_error_returncode [of e p "round_start e p s w n" err] show ?thesis
      by (simp split: if_splits)
  next
    case (Inr u)
    with last show ?thesis by (simp add: poll_ok_returncode)
  qed
  ultimately show ?thesis by blast
qed


theorem wait_exits_iff_queue_empty_witness:
  "poll waiting_env ''Nanopolish_12_'' (round_start waiting_env ''Nanopolish_12_'' 0 start_world 0) = Inr 1
   \<and> poll waiting_env ''Nanopolish_12_'' (round_start waiting_env ''Nanopolish_12_'' 0 start_world 1) = Inr 0
   \<and> map_option fst (wait_for_jobs waiting_env ''Nanopolish_12_'' 0 start_world) = Some (Inr ())"
proof -
  let ?p = "''Nanopolish_12_''"
  have a: "poll waiting_env ?p (round_start waiting_env ?p 0 start_world 0) = Inr (Suc 0)"
    by code_simp
  have b: "poll waiting_env ?p (round_start waiting_env ?p 0 start_world 1) = Inr 0"
    by code_simp
  from a have "\<forall>k<1. \<exists>m. poll waiting_env ?p (round_start waiting_env ?p 0 start_world k) = Inr (Suc m)"
    by auto
  with b have "\<exists>n. poll waiting_env ?p (round_start waiting_env ?p 0 start_world n) = Inr 0
           \<and> (\<forall>k<n. \<exists>m. poll waiting_env ?p (round_start waiting_env ?p 0 start_world k) = Inr (Suc m))"
    by blast
  with wait_exits_iff_queue_empty [of waiting_env ?p 0 start_world]
  obtain w' where "wait_for_jobs waiting_env ?p 0 start_world = Some (Inr (), w')"
    by blast
  with a b show ?thesis by simp
qed

theorem wait_sleeps_before_each_query_witness:
  "fst (wait_round waiting_env ''Nanopolish_12_'' 0 start_world) = Inr False
   \<and> fst (wait_round waiting_env ''Nanopolish_12_'' 0
            (snd (wait_round waiting_env ''Nanopolish_12_'' 0 start_world))) = Inr True
   \<and> (\<exists>n rc. trace (snd (wait_round waiting_env ''Nanopolish_12_'' 0
                      (snd (wait_round waiting_env ''Nanopolish_12_'' 0 start_world))))
               = trace start_world @ concat (replicate n [Sleep 60, Run squeue_command 0])
                   @ [Sleep 60, Run squeue_command rc]
             \<and> rc = 0)"
proof -
  let ?p = "''Nanopolish_12_''"
  let ?w1 = "snd (wait_round waiting_env ?p 0 start_world)"
  let ?w2 = "snd (wait_round waiting_env ?p 0 ?w1)"
  have a: "fst (wait_round waiting_env ?p 0 start_world) = Inr False" by code_simp
  have b: "fst (wait_round waiting_env ?p 0 ?w1) = Inr True" by code_simp
  have "wait_for_jobs waiting_env ?p 0 start_world = Some (Inr (), ?w2)"
    using wait_again [OF a] wait_done [OF b] by simp
  from wait_sleeps_before_each_query [OF this] a b show ?thesis by simp
qed

text \<open>
  The claim as it stands fails: with no job of the run in the queue at the first query the
  loop has still slept 60 seconds before asking.
\<close>

theorem first_check_sleeps_counterexample:
  "poll quiet_env ''Nanopolish_12_'' start_world = Inr 0
   \<and> map_option (\<lambda>(r, w'). (r, trace w')) (wait_for_jobs quiet_env ''Nanopolish_12_'' 0 start_world)
       = Some (Inr (), [Sleep 60, Run squeue_command 0])"
proof -
  let ?p = "''Nanopolish_12_''"
  have a: "poll quiet_env ?p start_world = Inr 0" by code_simp
  have b: "fst (wait_round quiet_env ?p 0 start_world) = Inr True" by code_simp
  have c: "trace (snd (wait_round quiet_env ?p 0 start_world)) = [Sleep 60, Run squeue_command 0]"
    by code_simp
  from wait_done [OF b] a c show ?thesis by simp
qed

subsection \<open>The whole run\<close>

lemma trace_print_noend [simp]: "trace (print_noend s w) = trace w"
  by (simp add: print_noend_def)

lemma halts_Cons: "\<not> failed x \<Longrightarrow> halts_at_failure tr r \<Longrightarrow> halts_at_failure (x # tr) r"
  by (cases tr; cases x) simp_all

lemma halts_append:
  "\<forall>ev\<in>set a. \<not> failed ev \<Longrightarrow> halts_at_failure b r \<Longrightarrow> halts_at_failure (a @ b) r"
  by (induction a) (simp_all add: halts_Cons)

lemma halts_Inr_clean: "halts_at_failure ext (Inr a) \<Longrightarrow> \<forall>ev\<in>set ext. \<not> failed ev"
proof (induction ext "Inr a :: error + 'a" rule: halts_at_failure.induct)
  case 1
  then show ?case by simp
next
  case (2 ev)
  then show ?case by (cases ev) simp_all
next
  case (3 ev ev' tr)
  then show ?case by simp
qed

lemma clean_halts: "\<forall>ev\<in>set ext. \<not> failed ev \<Longrightarrow> halts_at_failure ext r"
  using halts_append [of ext "[]" r] by simp

lemma halts_Inl_any:
  "halts_at_failure ext (Inl err :: error + 'a) \<Longrightarrow> halts_at_failure ext (Inl err :: error + 'b)"
proof (induction ext "Inl err :: error + 'a" rule: halts_at_failure.induct)
  case 1
  then show ?case by simp
next
  case (2 ev)
  then show ?case by (cases ev) simp_all
next
  case (3 ev ev' tr)
  then show ?case by simp
qed

text \<open>In a stretch that is in order, a failed command is the last event and the error of the result.\<close>

lemma halts_failed_last:
  "halts_at_failure ext r \<Longrightarrow> Run cmd rc \<in> set ext \<Longrightarrow> rc \<noteq> 0 \<Longrightarrow>
     r = Inl (CalledProcessError cmd rc)
     \<and> (\<exists>pre. ext = pre @ [Run cmd rc] \<and> (\<forall>ev\<in>set pre. \<not> failed ev))"
proof (induction ext r rule: halts_at_failure.induct)
  case (1 r)
  then show ?case by simp
next
  case (2 ev r)
  then have "ev = Run cmd rc" by simp
  with 2 have "r = Inl (CalledProcessError cmd rc) \<and> [ev] = [] @ [Run cmd rc]
      \<and> (\<forall>ev\<in>set []. \<not> failed ev)"
    by simp
  then show ?case by blast
next
  case (3 ev ev' tr r)
  from "3.prems" have nf: "\<not> failed ev" and h: "halts_at_failure (ev' # tr) r" by simp_all
  from nf "3.prems"(3) have "ev \<noteq> Run cmd rc" by auto
  with "3.prems"(2) have "Run cmd rc \<in> set (ev' # tr)" by simp
  from "3.IH" [OF h this "3.prems"(3)] obtain pre where
    r: "r = Inl (CalledProcessError cmd rc)" and e: "ev' # tr = pre @ [Run cmd rc]"
    and c: "\<forall>ev\<in>set pre. \<not> failed ev" by blast
  from e c nf have "ev # ev' # tr = (ev # pre) @ [Run cmd rc] \<and> (\<forall>x\<in>set (ev # pre). \<not> failed x)"
    by simp
  with r show ?case by blast
qed

lemma orderly_iff:
  "orderly w m \<longleftrightarrow> (\<exists>ext. trace (snd m) = trace w @ ext \<and> halts_at_failure ext (fst m))"
proof
  assume "orderly w m"
  then have "trace (snd m) = trace w @ drop (length (trace w)) (trace (snd m))
      \<and> halts_at_failure (drop (length (trace w)) (trace (snd m))) (fst m)"
    by (metis orderly_def append_take_drop_id)
  then show "\<exists>ext. trace (snd m) = trace w @ ext \<and> halts_at_failure ext (fst m)" by blast
next
  assume "\<exists>ext. trace (snd m) = trace w @ ext \<and> halts_at_failure ext (fst m)"
  then show "orderly w m" by (auto simp: orderly_def)
qed

lemma orderlyI:
  "trace w' = trace w @ ext \<Longrightarrow> halts_at_failure ext r \<Longrightarrow> orderly w (r, w')"
  by (auto simp: orderly_iff)

lemma orderly_prefix: "orderly w m \<Longrightarrow> prefix (trace w) (trace (snd m))"
  by (auto simp: orderly_iff)

lemma orderly_return: "trace v = trace w \<Longrightarrow> orderly w (Inr a, v)"
  by (rule orderlyI [of _ _ "[]"]) simp_all

lemma orderly_raise: "trace v = trace w \<Longrightarrow> orderly w (Inl err, v)"
  by (rule orderlyI [of _ _ "[]"]) simp_all

lemma orderly_same_trace: "trace v = trace w \<Longrightarrow> orderly v m \<Longrightarrow> orderly w m"
  by (simp add: orderly_def)

lemma orderly_later:
  assumes "trace v = trace w @ a" and "\<forall>ev\<in>set a. \<not> failed ev" and "orderly v m"
  shows "orderly w m"
proof -
  from assms(3) obtain ext where e: "trace (snd m) = trace v @ ext" and h: "halts_at_failure ext (fst m)"
    by (auto simp: orderly_iff)
  from e assms(1) have "trace (snd m) = trace w @ (a @ ext)" by simp
  moreover from assms(2) h have "halts_at_failure (a @ ext) (fst m)" by (rule halts_append)
  ultimately show ?thesis by (auto simp: orderly_iff)
qed

lemma orderly_and_then:
  assumes "orderly w m" and "\<And>a v. orderly v (f a v)"
  shows "orderly w (and_then m f)"
proof (cases m)
  case (Pair r v)
  show ?thesis
  proof (cases r)
    case (Inl err)
    from assms(1) Pair Inl obtain ext where "trace v = trace w @ ext"
      and "halts_at_failure ext (Inl err :: error + 'a)"
      by (auto simp: orderly_iff)
    then have "orderly w (Inl err :: error + 'b, v)"
      by (meson halts_Inl_any orderlyI)
    with Pair Inl show ?thesis by simp
  next
    case (Inr a)
    from assms(1) Pair Inr obtain ext where e: "trace v = trace w @ ext"
      and "halts_at_failure ext (Inr a :: error + 'a)"
      by (auto simp: orderly_iff)
    then have "\<forall>ev\<in>set ext. \<not> failed ev" by (meson halts_Inr_clean)
    from orderly_later [OF e this assms(2) [of v a]] have "orderly w (f a v)" .
    with Pair Inr show ?thesis by simp
  qed
qed

lemma orderly_still: "trace v = trace w \<Longrightarrow> orderly w (r, v)"
  by (cases r) (simp_all add: orderly_return orderly_raise)

lemma orderly_subprocess_run: "trace v = trace w \<Longrightarrow> orderly w (subprocess_run e cmd v)"
proof (rule orderly_same_trace [of v])
  show "orderly v (subprocess_run e cmd v)"
  proof (cases "CHR 0x00 \<in> set cmd")
    case True
    then show ?thesis by (simp add: subprocess_run_def orderly_raise)
  next
    case False
    let ?rc = "returncode (shell e cmd v)"
    let ?v = "v\<lparr>files := files_after (shell e cmd v), trace := trace v @ [Run cmd ?rc]\<rparr>"
    have t: "trace ?v = trace v @ [Run cmd ?rc]" by simp
    show ?thesis
    proof (cases "?rc = 0")
      case True
      with False have s: "subprocess_run e cmd v = (Inr (captured (shell e cmd v)), ?v)"
        by (simp add: subprocess_run_def Let_def)
      from True have h: "halts_at_failure [Run cmd ?rc] (Inr (captured (shell e cmd v)) :: error + string)"
        by simp
      from orderlyI [OF t h] s show ?thesis by simp
    next
      case nz: False
      with False have s: "subprocess_run e cmd v = (Inl (CalledProcessError cmd ?rc), ?v)"
        by (simp add: subprocess_run_def Let_def)
      have h: "halts_at_failure [Run cmd ?rc] (Inl (CalledProcessError cmd ?rc) :: error + string)"
        by simp
      from orderlyI [OF t h] s show ?thesis by simp
    qed
  qed
qed (assumption)

lemma orderly_os_mkdir: "trace v = trace w \<Longrightarrow> orderly w (os_mkdir p v)"
  by (rule orderly_same_trace [of v])
     (auto simp: os_mkdir_def split: option.splits entry.splits
           intro!: orderly_raise orderlyI [of _ _ "[Mkdir p]"])

lemma orderly_os_chdir: "trace v = trace w \<Longrightarrow> orderly w (os_chdir p v)"
  by (rule orderly_same_trace [of v])
     (auto simp: os_chdir_def split: option.splits
           intro!: orderly_raise orderlyI [of _ _ "[Chdir p]"])

lemma orderly_shutil_rmtree: "trace v = trace w \<Longrightarrow> orderly w (shutil_rmtree p v)"
  by (rule orderly_same_trace [of v])
     (auto simp: shutil_rmtree_def split: option.splits
           intro!: orderly_raise orderlyI [of _ _ "[Rmtree p]"])

lemma orderly_open_wt: "trace v = trace w \<Longrightarrow> orderly w (open_wt p v)"
  by (rule orderly_same_trace [of v])
     (auto simp: open_wt_def split: option.splits entry.splits
           intro!: orderly_raise orderlyI [of _ _ "[Write p]"])

lemma orderly_write_empty_range: "trace v = trace w \<Longrightarrow> orderly w (write_empty_range r k v)"
  unfolding write_empty_range_def
  by (intro orderly_and_then orderly_open_wt)
     (auto simp: Let_def split: sum.splits intro!: orderly_raise orderly_return)

lemma orderly_get_nanopolish_ranges:
  "trace v = trace w \<Longrightarrow> orderly w (get_nanopolish_ranges e mk asm v)"
  unfolding get_nanopolish_ranges_def
  by (intro orderly_and_then orderly_subprocess_run orderly_still) simp_all

lemma orderly_get_remaining:
  "trace v = trace w \<Longrightarrow> orderly w (get_remaining_nanopolish_jobs e p v)"
  unfolding get_remaining_nanopolish_jobs_def
  by (intro orderly_and_then orderly_subprocess_run)
     (auto split: sum.splits intro!: orderly_raise orderly_return)

lemma orderly_launch_jobs: "trace v = trace w \<Longrightarrow> orderly w (launch_jobs e l p rs v)"
proof (induction rs arbitrary: v w)
  case Nil
  then show ?case by (simp add: orderly_return)
next
  case (Cons r rs)
  show ?case
    unfolding launch_jobs.simps
    by (intro orderly_and_then orderly_subprocess_run Cons.IH) (simp_all add: Cons.prems)
qed

lemma orderly_enter_workspace: "orderly w (enter_workspace l w)"
  unfolding enter_workspace_def
  by (intro orderly_and_then orderly_os_mkdir orderly_os_chdir) simp_all

lemma orderly_align_and_launch: "trace v = trace w \<Longrightarrow> orderly w (align_and_launch e l rs v)"
  unfolding align_and_launch_def
  by (intro orderly_and_then orderly_subprocess_run orderly_launch_jobs) simp_all

lemma orderly_startup: "orderly w (startup e w)"
proof (cases "read_args e")
  case (Inl err)
  then show ?thesis by (simp add: startup_def orderly_raise)
next
  case (Inr l)
  show ?thesis
    unfolding startup_def Inr sum.case
    by (intro orderly_and_then orderly_enter_workspace orderly_get_nanopolish_ranges
        orderly_align_and_launch orderly_return) simp_all
qed

lemma orderly_wait_round: "orderly w (wait_round e p s w)"
proof -
  have "orderly (time_sleep e 60 w) (wait_round e p s w)"
    unfolding wait_round_def
    by (intro orderly_and_then orderly_get_remaining)
       (auto intro!: orderly_return)
  moreover have "trace (time_sleep e 60 w) = trace w @ [Sleep 60]"
    by (simp add: time_sleep_def)
  ultimately show ?thesis
    by (rule orderly_later [rotated 2]) simp_all
qed

lemma orderly_unit: "orderly w (Inr a, v) \<Longrightarrow> orderly w (Inr b, v)"
  by (auto simp: orderly_iff dest!: halts_Inr_clean intro: clean_halts)

lemma orderly_error: "orderly w (Inl err :: error + 'a, v) \<Longrightarrow> orderly w (Inl err :: error + 'b, v)"
  by (auto simp: orderly_iff intro: halts_Inl_any)

lemma orderly_continue:
  assumes "orderly w (Inr a, v)" and "orderly v m"
  shows "orderly w m"
proof -
  from assms(1) obtain ext where e: "trace v = trace w @ ext" and "halts_at_failure ext (Inr a :: error + 'a)"
    by (auto simp: orderly_iff)
  then have "\<forall>ev\<in>set ext. \<not> failed ev" by (meson halts_Inr_clean)
  from orderly_later [OF e this assms(2)] show ?thesis .
qed

lemma orderly_wait_for_jobs:
  assumes "wait_for_jobs e p s w = Some y"
  shows "orderly w y"
proof (rule wait_for_jobs.raw_induct [where P = "\<lambda>e p s w y. orderly w y", OF _ assms])
  fix f :: "env \<Rightarrow> string \<Rightarrow> int \<Rightarrow> world \<Rightarrow> ((error + unit) \<times> world) option"
    and e p s w y
  assume IH: "\<And>e p s w y. f e p s w = Some y \<Longrightarrow> orderly w y"
    and body: "(case wait_round e p s w of
        (Inl err, w') \<Rightarrow> Some (Inl err, w')
      | (Inr done, w') \<Rightarrow> if done then Some (Inr (), w') else f e p s w') = Some y"
  obtain r v where wr: "wait_round e p s w = (r, v)" by (cases "wait_round e p s w")
  have o: "orderly w (r, v)" using orderly_wait_round [of w e p s] wr by simp
  show "orderly w y"
  proof (cases r)
    case (Inl err)
    with body wr have "y = (Inl err, v)" by simp
    with o Inl show ?thesis by (simp add: orderly_error)
  next
    case (Inr d)
    show ?thesis
    proof (cases d)
      case True
      with body wr Inr have "y = (Inr (), v)" by simp
      with o Inr show ?thesis by (metis orderly_unit)
    next
      case False
      with body wr Inr have "f e p s v = Some y" by simp
      from orderly_continue [OF o [unfolded Inr] IH [OF this]] show ?thesis .
    qed
  qed
qed

lemma orderly_fill_ranges: "trace v = trace w \<Longrightarrow> orderly w (fill_ranges rs v)"
proof (induction rs arbitrary: v w)
  case Nil
  then show ?case by (simp add: orderly_return)
next
  case (Cons r rs)
  show ?case
  proof (cases "range_start r")
    case None
    then show ?thesis by (simp add: orderly_raise Cons.prems)
  next
    case (Some s)
    note start = this
    show ?thesis
    proof (cases "range_end r")
      case None
      with start show ?thesis by (simp add: orderly_raise Cons.prems)
    next
      case (Some e)
      show ?thesis
        unfolding fill_ranges.simps start Some option.case
        by (intro orderly_and_then orderly_write_empty_range Cons.IH) (simp_all add: Cons.prems)
    qed
  qed
qed

lemma orderly_make_empty_ranges: "orderly w (make_empty_ranges rs w)"
  unfolding make_empty_ranges_def Let_def
  by (rule orderly_fill_ranges) simp

lemma orderly_merge_results: "orderly w (merge_results e l w)"
  unfolding merge_results_def
  by (intro orderly_and_then orderly_subprocess_run orderly_os_chdir orderly_shutil_rmtree)
     simp_all

text \<open>What the run adds to the trace after the startup.\<close>

lemma orderly_after_startup:
  assumes "main e w = Some y"
  shows "orderly (snd (startup e w)) y"
proof -
  obtain r w1 where st: "startup e w = (r, w1)" by (cases "startup e w")
  show ?thesis
  proof (cases r)
    case (Inl err)
    with st assms have "y = (Inl err, w1)" by (simp add: main_def)
    with st show ?thesis by (simp add: orderly_raise)
  next
    case (Inr lr)
    obtain l rs where lr: "lr = (l, rs)" by (cases lr)
    from assms st Inr lr obtain z where
      wz: "wait_for_jobs e (make_job_prefix (pid l)) (clock e w1) w1 = Some z"
      by (auto simp: main_def split: option.splits)
    obtain r2 w2 where z: "z = (r2, w2)" by (cases z)
    have o2: "orderly w1 z" using orderly_wait_for_jobs [OF wz] .
    show ?thesis
    proof (cases r2)
      case (Inl err)
      with assms st Inr lr wz z have "y = (Inl err, w2)" by (simp add: main_def)
      with o2 z Inl st show ?thesis by (simp add: orderly_error)
    next
      case (Inr u)
      with assms st \<open>r = Inr lr\<close> lr wz z have
        y: "y = and_then (make_empty_ranges rs w2) (\<lambda>u. merge_results e l)"
        by (simp add: main_def)
      have "orderly w2 (and_then (make_empty_ranges rs w2) (\<lambda>u. merge_results e l))"
        by (intro orderly_and_then orderly_make_empty_ranges orderly_merge_results)
      from orderly_continue [OF o2 [unfolded z Inr] this] y st show ?thesis by simp
    qed
  qed
qed

lemma orderly_main:
  assumes "main e w = Some y"
  shows "orderly w y"
proof -
  obtain r w1 where st: "startup e w = (r, w1)" by (cases "startup e w")
  have o1: "orderly w (r, w1)" using orderly_startup [of w e] st by simp
  have o2: "orderly w1 y" using orderly_after_startup [OF assms] st by simp
  show ?thesis
  proof (cases r)
    case (Inl err)
    with st assms have "y = (Inl err, w1)" by (simp add: main_def)
    with o1 Inl show ?thesis by (simp add: orderly_error)
  next
    case (Inr lr)
    from orderly_continue [OF o1 [unfolded Inr] o2] show ?thesis .
  qed
qed

lemma read_args_temp_dir:
  "read_args e = Inr l \<Longrightarrow>
     temp_dir l = path_join (abspath e (argv e ! 4)) (str_nat (getpid e) @ ''_temp_dir'')
     \<and> pid l = str_nat (getpid e)"
  unfolding read_args_def Let_def
  by (cases "length (argv e) < 7"; cases "py_int (argv e ! 6)") auto

lemma startup_mkdir_raises:
  assumes "read_args e = Inr l"
    and "os_mkdir (temp_dir l) (print (newline @ ''Preparing to run Nanopolish for '' @ set_name l) w)
           = (Inl err, w')"
  shows "startup e w = (Inl err, w')"
  using assms by (simp add: startup_def enter_workspace_def)

lemma main_startup_raises: "startup e w = (Inl err, w') \<Longrightarrow> main e w = Some (Inl err, w')"
  by (simp add: main_def)

text \<open>
  C10. The workspace is \<open><output dir>/<pid>_temp_dir\<close>. When something is there already,
  the run ends with FileExistsError at \<^verbatim>\<open>os.mkdir\<close>; when the directory it is to be made in
  is missing, it ends there as well, for \<^verbatim>\<open>os.mkdir\<close> makes no parents. In both cases
  nothing was done to the outside: no command was run and no file or directory was made.
\<close>

theorem existing_workspace_aborts:
  assumes "read_args e = Inr l"
  shows "temp_dir l = path_join (abspath e (argv e ! 4)) (str_nat (getpid e) @ ''_temp_dir'')
     \<and> (paths w (temp_dir l) \<noteq> None \<longrightarrow>
          (\<exists>w'. main e w = Some (Inl FileExistsError, w')
                \<and> trace w' = trace w \<and> paths w' = paths w \<and> files w' = files w))
     \<and> (paths w (temp_dir l) = None \<and> paths w (os_path_dirname (temp_dir l)) \<noteq> Some Dir \<longrightarrow>
          (\<exists>err w'. main e w = Some (Inl err, w')
                \<and> (err = FileNotFoundError \<or> err = NotADirectoryError)
                \<and> trace w' = trace w \<and> paths w' = paths w \<and> files w' = files w))"
proof -
  from assms have t: "temp_dir l = path_join (abspath e (argv e ! 4)) (str_nat (getpid e) @ ''_temp_dir'')"
    by (simp add: read_args_temp_dir)
  let ?w0 = "print (newline @ ''Preparing to run Nanopolish for '' @ set_name l) w"
  have p: "paths ?w0 = paths w" by (simp add: print_def)
  have a: "main e w = Some (Inl FileExistsError, ?w0)" if "paths w (temp_dir l) \<noteq> None"
  proof -
    from that p have "os_mkdir (temp_dir l) ?w0 = (Inl FileExistsError, ?w0)"
      by (simp add: os_mkdir_def)
    from main_startup_raises [OF startup_mkdir_raises [OF assms this]] show ?thesis .
  qed
  have b: "\<exists>err. main e w = Some (Inl err, ?w0) \<and> (err = FileNotFoundError \<or> err = NotADirectoryError)"
    if "paths w (temp_dir l) = None" "paths w (os_path_dirname (temp_dir l)) \<noteq> Some Dir"
  proof -
    from that p have "\<exists>err. os_mkdir (temp_dir l) ?w0 = (Inl err, ?w0)
        \<and> (err = FileNotFoundError \<or> err = NotADirectoryError)"
      by (auto simp: os_mkdir_def split: option.splits entry.splits)
    then obtain err where o: "os_mkdir (temp_dir l) ?w0 = (Inl err, ?w0)"
      and k: "err = FileNotFoundError \<or> err = NotADirectoryError" by blast
    from main_startup_raises [OF startup_mkdir_raises [OF assms o]] k show ?thesis by blast
  qed
  have c: "trace ?w0 = trace w \<and> paths ?w0 = paths w \<and> files ?w0 = files w"
    by (simp add: print_def)
  from t a b c show ?thesis by blast
qed


theorem existing_workspace_aborts_witness:
  "read_args waiting_env = Inr demo_locals
   \<and> paths done_world (temp_dir demo_locals) \<noteq> None
   \<and> map_option fst (main waiting_env done_world) = Some (Inl FileExistsError)"
proof -
  have a: "read_args waiting_env = Inr demo_locals" by code_simp
  have b: "paths done_world (temp_dir demo_locals) \<noteq> None"
    by (simp add: done_world_def demo_locals_def)
  from existing_workspace_aborts [OF a, of done_world] b
  obtain w' where "main waiting_env done_world = Some (Inl FileExistsError, w')"
    by blast
  with a b show ?thesis by simp
qed

end
